theory Spec2Isabelle
  imports Main "HOL-Library.Sublist" "HOL-Library.AList"
begin

section \<open>Cluster snapshot script (create\_snapshot.py)\<close>

text \<open>
  The script runs a fixed catalogue of \<open>kubectl\<close> commands against a cluster, writes the
  output of each command to a file of a temporary directory, and packs the directory into an
  archive. This theory embeds it function by function.

  Text is a \<open>string\<close> holding the UTF-8 encoding of the Python \<open>str\<close> (a \<open>char\<close> is one
  byte). The operations of the script act on the single-byte characters space, underscore,
  slash, dot and the braces, and \<open>str.strip\<close>, which removes white-space code points, is
  written on their encodings, so each operation computes on the encoding what Python computes
  on the code points.
\<close>

subsection \<open>Exceptions and results\<close>

datatype exn =
  TimeoutExpired | TypeError | AttributeError | UnicodeDecodeError | OSError | KeyError
  | ValueError

text \<open>A call returns a value, raises, or never returns (it waits for a process for ever).\<close>

datatype stop = Raised exn | Blocked

type_synonym 'a result = "stop + 'a"

subsection \<open>String operations\<close>

text \<open>\<open>s.replace(a, b)\<close> for one-character \<open>a\<close> and \<open>b\<close>.\<close>

definition replace :: "char \<Rightarrow> char \<Rightarrow> string \<Rightarrow> string" where
  "replace a b s = map (\<lambda>c. if c = a then b else c) s"

text \<open>\<open>s.split(sep)\<close> for a one-character separator: one more piece than separators.\<close>

fun split :: "char \<Rightarrow> string \<Rightarrow> string list" where
  "split sep [] = [[]]"
| "split sep (c # cs) =
     (if c = sep then [] # split sep cs
      else (case split sep cs of [] \<Rightarrow> [[c]] | p # ps \<Rightarrow> (c # p) # ps))"

text \<open>
  The code points for which \<open>str.isspace\<close> holds, each as its UTF-8 encoding: U+0009 to
  U+000D, U+001C to U+0020, U+0085, U+00A0, U+1680, U+2000 to U+200A, U+2028, U+2029,
  U+202F, U+205F and U+3000.
\<close>

definition whitespace :: "string list" where
  "whitespace =
     [[CHR 0x09], [CHR 0x0A], [CHR 0x0B], [CHR 0x0C], [CHR 0x0D],
      [CHR 0x1C], [CHR 0x1D], [CHR 0x1E], [CHR 0x1F], [CHR 0x20],
      [CHR 0xC2, CHR 0x85], [CHR 0xC2, CHR 0xA0],
      [CHR 0xE1, CHR 0x9A, CHR 0x80],
      [CHR 0xE2, CHR 0x80, CHR 0x80], [CHR 0xE2, CHR 0x80, CHR 0x81],
      [CHR 0xE2, CHR 0x80, CHR 0x82], [CHR 0xE2, CHR 0x80, CHR 0x83],
      [CHR 0xE2, CHR 0x80, CHR 0x84], [CHR 0xE2, CHR 0x80, CHR 0x85],
      [CHR 0xE2, CHR 0x80, CHR 0x86], [CHR 0xE2, CHR 0x80, CHR 0x87],
      [CHR 0xE2, CHR 0x80, CHR 0x88], [CHR 0xE2, CHR 0x80, CHR 0x89],
      [CHR 0xE2, CHR 0x80, CHR 0x8A],
      [CHR 0xE2, CHR 0x80, CHR 0xA8], [CHR 0xE2, CHR 0x80, CHR 0xA9],
      [CHR 0xE2, CHR 0x80, CHR 0xAF],
      [CHR 0xE2, CHR 0x81, CHR 0x9F],
      [CHR 0xE3, CHR 0x80, CHR 0x80]]"

text \<open>
  \<open>strip_left ws s\<close> removes from the front of \<open>s\<close> every leading occurrence of one of the
  strings \<open>ws\<close>; the first argument bounds the number of removals.
\<close>

fun strip_left :: "nat \<Rightarrow> string list \<Rightarrow> string \<Rightarrow> string" where
  "strip_left 0 ws s = s"
| "strip_left (Suc n) ws s =
     (case find (\<lambda>p. p \<noteq> [] \<and> prefix p s) ws of
        None \<Rightarrow> s
      | Some p \<Rightarrow> strip_left n ws (drop (length p) s))"

definition lstrip :: "string \<Rightarrow> string" where
  "lstrip s = strip_left (length s) whitespace s"

definition rstrip :: "string \<Rightarrow> string" where
  "rstrip s = rev (strip_left (length s) (map rev whitespace) (rev s))"

text \<open>\<open>s.strip()\<close>.\<close>

definition strip :: "string \<Rightarrow> string" where
  "strip s = rstrip (lstrip s)"

text \<open>
  \<open>bytes.decode()\<close>: the bytes are UTF-8 or the call raises. Well-formed UTF-8 has no
  overlong forms, no surrogates and nothing above U+10FFFF. Text being held as its
  encoding, a successful decode returns the bytes.
\<close>

definition cont :: "char \<Rightarrow> bool" where
  "cont c = (0x80 \<le> (of_char c :: nat) \<and> (of_char c :: nat) \<le> 0xBF)"

definition between :: "nat \<Rightarrow> char \<Rightarrow> nat \<Rightarrow> bool" where
  "between lo c hi = (lo \<le> (of_char c :: nat) \<and> (of_char c :: nat) \<le> hi)"

fun valid_utf8 :: "string \<Rightarrow> bool" where
  "valid_utf8 [] = True"
| "valid_utf8 (a # s) =
     (if between 0x00 a 0x7F then valid_utf8 s
      else if between 0xC2 a 0xDF then
        (case s of b # s' \<Rightarrow> cont b \<and> valid_utf8 s' | _ \<Rightarrow> False)
      else if between 0xE0 a 0xEF then
        (case s of b # c # s' \<Rightarrow>
           (if a = CHR 0xE0 then between 0xA0 b 0xBF
            else if a = CHR 0xED then between 0x80 b 0x9F
            else cont b) \<and> cont c \<and> valid_utf8 s'
         | _ \<Rightarrow> False)
      else if between 0xF0 a 0xF4 then
        (case s of b # c # d # s' \<Rightarrow>
           (if a = CHR 0xF0 then between 0x90 b 0xBF
            else if a = CHR 0xF4 then between 0x80 b 0x8F
            else cont b) \<and> cont c \<and> cont d \<and> valid_utf8 s'
         | _ \<Rightarrow> False)
      else False)"

definition decode :: "string \<Rightarrow> string result" where
  "decode bs = (if valid_utf8 bs then Inr bs else Inl (Raised UnicodeDecodeError))"

text \<open>\<open>str(n)\<close> for an integer: decimal digits, a minus sign when negative.\<close>

definition digit :: "nat \<Rightarrow> char" where
  "digit d = char_of (48 + d)"

fun str_nat :: "nat \<Rightarrow> string" where
  "str_nat n = (if n < 10 then [digit n] else str_nat (n div 10) @ [digit (n mod 10)])"

declare str_nat.simps [simp del]

definition str_int :: "int \<Rightarrow> string" where
  "str_int i = (if i < 0 then CHR ''-'' # str_nat (nat (- i)) else str_nat (nat i))"

text \<open>
  \<open>template.format(**kw)\<close> for the templates of the script: literal text, the escapes
  \<open>{{\<close> and \<open>}}\<close>, and replacement fields \<open>{name}\<close> filled from the keyword arguments. A
  value is inserted as it is and never scanned again. The second argument is \<open>None\<close> in
  literal text and \<open>Some n\<close> inside a field whose name read so far is \<open>n\<close>. Conversions,
  format specifications, attribute and index lookups and automatic numbering, which no
  template of the script uses, are not interpreted.
\<close>

definition emit :: "string \<Rightarrow> exn + string \<Rightarrow> exn + string" where
  "emit v r = (case r of Inl e \<Rightarrow> Inl e | Inr s \<Rightarrow> Inr (v @ s))"

fun fmt :: "(string \<times> string) list \<Rightarrow> string option \<Rightarrow> string \<Rightarrow> exn + string" where
  "fmt kw None [] = Inr []"
| "fmt kw (Some n) [] = Inl ValueError"
| "fmt kw None (c # cs) =
     (if c = CHR ''{'' then
        (case cs of
           [] \<Rightarrow> Inl ValueError
         | d # cs' \<Rightarrow> if d = CHR ''{'' then emit [c] (fmt kw None cs') else fmt kw (Some []) cs)
      else if c = CHR ''}'' then
        (case cs of
           [] \<Rightarrow> Inl ValueError
         | d # cs' \<Rightarrow> if d = CHR ''}'' then emit [c] (fmt kw None cs') else Inl ValueError)
      else emit [c] (fmt kw None cs))"
| "fmt kw (Some n) (c # cs) =
     (if c = CHR ''}'' then
        (case map_of kw n of
           None \<Rightarrow> Inl KeyError
         | Some v \<Rightarrow> emit v (fmt kw None cs))
      else fmt kw (Some (n @ [c])) cs)"

definition format :: "string \<Rightarrow> (string \<times> string) list \<Rightarrow> exn + string" where
  "format template kw = fmt kw None template"

subsection \<open>Paths\<close>

text \<open>
  A \<open>pathlib.PurePosixPath\<close>: the root (empty, one slash or two slashes) and the names
  after it. Empty names and \<open>.\<close> are dropped on parsing; \<open>..\<close> is kept as a name.
\<close>

record path =
  root :: string
  names :: "string list"

definition splitroot :: "string \<Rightarrow> string \<times> string" where
  "splitroot part =
     (if part \<noteq> [] \<and> hd part = CHR ''/'' then
        (let stripped_part = dropWhile (\<lambda>c. c = CHR ''/'') part
         in if length part - length stripped_part = 2 then (''//'', stripped_part)
            else (''/'', stripped_part))
      else ([], part))"

text \<open>\<open>PurePosixPath(part)\<close>.\<close>

definition parse_part :: "string \<Rightarrow> path" where
  "parse_part part =
     (case splitroot part of
        (r, rel) \<Rightarrow> \<lparr>root = r, names = filter (\<lambda>x. x \<noteq> [] \<and> x \<noteq> ''.'') (split CHR ''/'' rel)\<rparr>)"

text \<open>\<open>p / key\<close>: an absolute right operand replaces the left one.\<close>

definition joinpath :: "path \<Rightarrow> string \<Rightarrow> path" where
  "joinpath p key =
     (let q = parse_part key
      in if root q \<noteq> [] then q else \<lparr>root = root p, names = names p @ names q\<rparr>)"

text \<open>\<open>p.parent\<close>: a path without names is its own parent.\<close>

definition parent :: "path \<Rightarrow> path" where
  "parent p = \<lparr>root = root p, names = butlast (names p)\<rparr>"

fun join :: "string \<Rightarrow> string list \<Rightarrow> string" where
  "join sep [] = []"
| "join sep [x] = x"
| "join sep (x # y # ys) = x @ sep @ join sep (y # ys)"

text \<open>\<open>str(p)\<close>.\<close>

definition str_path :: "path \<Rightarrow> string" where
  "str_path p =
     (if root p = [] \<and> names p = [] then ''.'' else root p @ join ''/'' (names p))"

text \<open>\<open>p.absolute()\<close>, for the working directory \<open>wd\<close> (\<open>os.getcwd()\<close>).\<close>

definition absolute :: "string \<Rightarrow> path \<Rightarrow> path" where
  "absolute wd p =
     (if root p \<noteq> [] then p
      else \<lparr>root = root (parse_part wd), names = names (parse_part wd) @ names p\<rparr>)"

text \<open>
  The file system addresses a node by the names from the root directory; a relative path
  starts at the working directory. Symbolic links and \<open>..\<close> are not resolved.
\<close>

definition fs_key :: "string \<Rightarrow> path \<Rightarrow> string list" where
  "fs_key wd p = names (absolute wd p)"

text \<open>The output file of a command, as the first line of \<open>run_cmd\<close> computes it.\<close>

definition output_path :: "string \<Rightarrow> string \<Rightarrow> path \<Rightarrow> path" where
  "output_path cmd subfolder output_dir =
     joinpath (joinpath output_dir subfolder) (replace CHR '' '' CHR ''_'' cmd)"

subsection \<open>The world outside the script\<close>

text \<open>
  What a launched process does is given from outside. \<open>Exits d rc out\<close>: the process exits
  by itself \<open>d\<close> time units after its launch with return code \<open>rc\<close>, having written \<open>out\<close>
  to its standard output (\<open>run_cmd\<close> sends the standard error to the same file, so there
  \<open>out\<close> is the two streams as the process interleaved them). \<open>Never_exits\<close>: it runs for
  ever. What a process killed at a timeout had written by then is not recorded: the
  exception leaves \<open>main\<close>, whose temporary directory is removed.
\<close>

datatype outcome = Exits nat int string | Never_exits

text \<open>
  \<open>proc cmd n\<close> is the outcome of launching \<open>cmd\<close> as the \<open>n\<close>-th process of the run
  (counted from 0), \<open>cwd\<close> the working directory, \<open>tmp_dir\<close> the fresh directory that
  \<open>tempfile\<close> creates, \<open>now\<close> the value of \<open>int(time.time())\<close> when the archive is named.
\<close>

record env =
  proc :: "string \<Rightarrow> nat \<Rightarrow> outcome"
  cwd :: string
  tmp_dir :: string
  now :: int

datatype node = Dir | File string

datatype sink = Capture | To_file "string list"

text \<open>One call of \<open>subprocess.run\<close>: the command, its \<open>timeout\<close> argument, where the output goes.\<close>

record launch =
  command :: string
  hard_timeout :: "nat option"
  stdout_to :: sink

text \<open>
  The lines printed: \<open>Executing: cmd...\<close>, \<open>[ DONE ]\<close>, \<open>[ FAIL ]\<close>, \<open>Command failed, trying
  again in t s\<close>, \<open>Created snapshot: name\<close>.
\<close>

datatype event = Executing string | Done | Fail | Retry nat | Created string

text \<open>
  The state that the script changes: the file system (an association list from the names
  of a node to the node), the console, the delays slept, the processes launched, and the
  archives written (file name, top-level directory, entries below it).
\<close>

record world =
  fs :: "(string list \<times> node) list"
  console :: "event list"
  slept :: "nat list"
  launches :: "launch list"
  archives :: "(string \<times> string \<times> (string list \<times> node) list) list"

type_synonym 'a io = "world \<Rightarrow> 'a result \<times> world"

definition bind :: "'a io \<Rightarrow> ('a \<Rightarrow> 'b io) \<Rightarrow> 'b io" where
  "bind m f w = (case m w of (Inl e, w') \<Rightarrow> (Inl e, w') | (Inr x, w') \<Rightarrow> f x w')"

definition print :: "event \<Rightarrow> world \<Rightarrow> world" where
  "print e w = w\<lparr>console := console w @ [e]\<rparr>"

definition sleep :: "nat \<Rightarrow> world \<Rightarrow> world" where
  "sleep t w = w\<lparr>slept := slept w @ [t]\<rparr>"

text \<open>A \<open>for\<close> loop over a list; an exception in the body ends it.\<close>

fun for_each :: "'a list \<Rightarrow> ('a \<Rightarrow> unit io) \<Rightarrow> unit io" where
  "for_each [] body w = (Inr (), w)"
| "for_each (x # xs) body w =
     (case body x w of (Inl e, w') \<Rightarrow> (Inl e, w') | (Inr u, w') \<Rightarrow> for_each xs body w')"

text \<open>Iterating over the value of an expression: \<open>None\<close> is not iterable.\<close>

definition iter :: "'a list option \<Rightarrow> 'a list io" where
  "iter v w = (case v of None \<Rightarrow> (Inl (Raised TypeError), w) | Some xs \<Rightarrow> (Inr xs, w))"

subsection \<open>File system calls\<close>

text \<open>
  The calls fail where a node of the wrong kind is in the way. Failures that depend on
  the machine (permissions, a full disk, the length of a name) are outside the model.
\<close>

definition lookup :: "(string list \<times> node) list \<Rightarrow> string list \<Rightarrow> node option" where
  "lookup t k = (if k = [] then Some Dir else map_of t k)"

text \<open>
  \<open>Path.mkdir(parents=True, exist_ok=True)\<close> on the directory \<open>pre @ ks\<close>, the directory
  \<open>pre\<close> existing: every missing directory on the way is created, a file on the way is an
  error.
\<close>

fun mkdir_parents ::
  "string list \<Rightarrow> string list \<Rightarrow> (string list \<times> node) list \<Rightarrow> exn + (string list \<times> node) list"
where
  "mkdir_parents pre [] t = Inr t"
| "mkdir_parents pre (k # ks) t =
     (case lookup t (pre @ [k]) of
        Some (File c) \<Rightarrow> Inl OSError
      | Some Dir \<Rightarrow> mkdir_parents (pre @ [k]) ks t
      | None \<Rightarrow> mkdir_parents (pre @ [k]) ks (AList.update (pre @ [k]) Dir t))"

text \<open>\<open>open(p, mode='w')\<close>: the file is created or emptied; a directory cannot be opened.\<close>

definition open_w :: "string list \<Rightarrow> (string list \<times> node) list \<Rightarrow> exn + (string list \<times> node) list" where
  "open_w k t =
     (case lookup t k of
        Some Dir \<Rightarrow> Inl OSError
      | _ \<Rightarrow> (case lookup t (butlast k) of
                Some Dir \<Rightarrow> Inr (AList.update k (File []) t)
              | _ \<Rightarrow> Inl OSError))"

text \<open>A process writes through the open file: its output goes after what is there.\<close>

definition write_out :: "string list \<Rightarrow> string \<Rightarrow> (string list \<times> node) list \<Rightarrow> (string list \<times> node) list" where
  "write_out k out t =
     (case map_of t k of Some (File c) \<Rightarrow> AList.update k (File (c @ out)) t | _ \<Rightarrow> t)"

subsection \<open>Running a process\<close>

record completed =
  returncode :: int
  stdout :: "string option"

text \<open>
  \<open>subprocess.run(cmd, shell=True, ...)\<close> with the output captured or sent to a file, and
  with or without \<open>timeout\<close>. With a timeout, a process still running when it has elapsed is
  killed and \<open>TimeoutExpired\<close> is raised; without one the call waits for the process.
\<close>

definition subprocess_run :: "env \<Rightarrow> string \<Rightarrow> sink \<Rightarrow> nat option \<Rightarrow> completed io" where
  "subprocess_run e cmd s timeout w =
     (let w1 = w\<lparr>launches := launches w @ [\<lparr>command = cmd, hard_timeout = timeout, stdout_to = s\<rparr>]\<rparr>
      in case proc e cmd (length (launches w)) of
           Never_exits \<Rightarrow>
             (case timeout of
                None \<Rightarrow> (Inl Blocked, w1)
              | Some t \<Rightarrow> (Inl (Raised TimeoutExpired), w1))
         | Exits d rc out \<Rightarrow>
             (if (case timeout of None \<Rightarrow> False | Some t \<Rightarrow> t < d)
              then (Inl (Raised TimeoutExpired), w1)
              else (case s of
                      Capture \<Rightarrow> (Inr \<lparr>returncode = rc, stdout = Some out\<rparr>, w1)
                    | To_file k \<Rightarrow>
                        (Inr \<lparr>returncode = rc, stdout = None\<rparr>,
                         w1\<lparr>fs := write_out k out (fs w1)\<rparr>))))"

subsection \<open>The Command Executor\<close>

definition CMD_TIMEOUT_SEC :: int where
  "CMD_TIMEOUT_SEC = 15"

definition BACKOFF_LIMIT :: nat where
  "BACKOFF_LIMIT = 4"

text \<open>The \<open>while True\<close> loop of \<open>run_cmd\<close>, the output file \<open>k\<close> being open.\<close>

function run_cmd_loop :: "env \<Rightarrow> string \<Rightarrow> string list \<Rightarrow> nat \<Rightarrow> nat \<Rightarrow> unit io" where
  "run_cmd_loop e cmd k backoff_timer backoff_count w =
     (if backoff_count > BACKOFF_LIMIT then (Inr (), print Fail w)
      else
        (case subprocess_run e cmd (To_file k) (Some 60) w of
           (Inl x, w1) \<Rightarrow> (Inl x, w1)
         | (Inr process, w1) \<Rightarrow>
             (if returncode process = 0 then (Inr (), print Done w1)
              else run_cmd_loop e cmd k (backoff_timer * 2) (backoff_count + 1)
                     (sleep backoff_timer (print (Retry backoff_timer) w1)))))"
  by pat_completeness auto
termination
  by (relation "measure (\<lambda>(e, cmd, k, backoff_timer, backoff_count, w). Suc BACKOFF_LIMIT - backoff_count)")
     auto

declare run_cmd_loop.simps [simp del]

definition run_cmd :: "env \<Rightarrow> string \<Rightarrow> string \<Rightarrow> path \<Rightarrow> unit io" where
  "run_cmd e cmd subfolder output_dir w =
     (let p = output_path cmd subfolder output_dir
      in case mkdir_parents [] (fs_key (cwd e) (parent p)) (fs w) of
           Inl x \<Rightarrow> (Inl (Raised x), w)
         | Inr t \<Rightarrow>
             (let w1 = print (Executing cmd) (w\<lparr>fs := t\<rparr>)
              in case open_w (fs_key (cwd e) p) (fs w1) of
                   Inl x \<Rightarrow> (Inl (Raised x), w1)
                 | Inr t1 \<Rightarrow> run_cmd_loop e cmd (fs_key (cwd e) p) 1 0 (w1\<lparr>fs := t1\<rparr>)))"

subsection \<open>The Object Lister\<close>

text \<open>
  The list made of the decoded output: \<open>strip\<close>, \<open>split(' ')\<close>, and \<open>remove('')\<close> when the
  empty string is in the list (\<open>list.remove\<close> takes out the first occurrence).
\<close>

definition parse_list :: "string \<Rightarrow> string list" where
  "parse_list text =
     (let obj_list = split CHR '' '' (strip text)
      in if [] \<in> set obj_list then remove1 [] obj_list else obj_list)"

text \<open>The \<open>while True\<close> loop of \<open>get_kubectl_list\<close>; the result \<open>None\<close> is Python's \<open>None\<close>.\<close>

function get_kubectl_list_loop :: "env \<Rightarrow> string \<Rightarrow> nat \<Rightarrow> nat \<Rightarrow> string list option io" where
  "get_kubectl_list_loop e cmd backoff_timer backoff_count w =
     (if backoff_count > BACKOFF_LIMIT then (Inr None, print Fail w)
      else
        (case subprocess_run e cmd Capture None w of
           (Inl x, w1) \<Rightarrow> (Inl x, w1)
         | (Inr process, w1) \<Rightarrow>
             (if returncode process = 0 then
                (let w2 = print Done w1
                 in case stdout process of
                      None \<Rightarrow> (Inl (Raised AttributeError), w2)
                    | Some bs \<Rightarrow>
                        (case decode bs of
                           Inl x \<Rightarrow> (Inl x, w2)
                         | Inr text \<Rightarrow> (Inr (Some (parse_list text)), w2)))
              else get_kubectl_list_loop e cmd (backoff_timer * 2) (backoff_count + 1)
                     (sleep backoff_timer (print (Retry backoff_timer) w1)))))"
  by pat_completeness auto
termination
  by (relation "measure (\<lambda>(e, cmd, backoff_timer, backoff_count, w). Suc BACKOFF_LIMIT - backoff_count)")
     auto

declare get_kubectl_list_loop.simps [simp del]

definition lister_template :: string where
  \<open>lister_template =
     ''kubectl get {obj_type} {kubeconfig_arg} --request-timeout {timeout} -o jsonpath="{jsonpath}" {obj_name}''\<close>

definition default_jsonpath :: string where
  "default_jsonpath = ''{.items[*].metadata.name}''"

text \<open>A failing \<open>format\<close> raises.\<close>

definition formatted :: "exn + string \<Rightarrow> string io" where
  "formatted r w = (case r of Inl x \<Rightarrow> (Inl (Raised x), w) | Inr s \<Rightarrow> (Inr s, w))"

text \<open>
  The arguments in the order of the source: object type, kubeconfig argument, timeout,
  namespace (default \<open>None\<close>), object name (default empty), jsonpath.
\<close>

definition get_kubectl_list ::
  "env \<Rightarrow> string \<Rightarrow> string \<Rightarrow> string \<Rightarrow> string option \<Rightarrow> string \<Rightarrow> string \<Rightarrow> string list option io"
where
  "get_kubectl_list e object_type kubeconfig timeout namespace object_name jsonpath =
     bind (formatted (format lister_template
             [(''kubeconfig_arg'', kubeconfig), (''jsonpath'', jsonpath), (''timeout'', timeout),
              (''obj_type'', object_type), (''obj_name'', object_name)]))
       (\<lambda>cmd0.
          (let cmd = (case namespace of
                        None \<Rightarrow> cmd0
                      | Some ns \<Rightarrow> if ns \<noteq> [] then cmd0 @ '' -n '' @ ns else cmd0)
           in (\<lambda>w. get_kubectl_list_loop e cmd 1 0 (print (Executing cmd) w))))"

subsection \<open>The command catalogues\<close>

definition KUBECTL_GLOBAL_CMDS :: "string list" where
  "KUBECTL_GLOBAL_CMDS =
     [''kubectl version {kubeconfig_arg} --request-timeout {timeout}'',
      ''kubectl cluster-info {kubeconfig_arg} --request-timeout {timeout}'',
      ''kubectl get clusterroles -o wide {kubeconfig_arg} --request-timeout {timeout}'',
      ''kubectl get clusterrolebindings -o wide {kubeconfig_arg} --request-timeout {timeout}'',
      ''kubectl get crd -o wide {kubeconfig_arg} --request-timeout {timeout}'',
      ''kubectl get nodes -o wide {kubeconfig_arg} --request-timeout {timeout}'',
      ''kubectl get clusterroles -o yaml {kubeconfig_arg} --request-timeout {timeout}'',
      ''kubectl get clusterrolebindings -o yaml {kubeconfig_arg} --request-timeout {timeout}'',
      ''kubectl get crd -o yaml {kubeconfig_arg} --request-timeout {timeout}'',
      ''kubectl get nodes -o yaml {kubeconfig_arg} --request-timeout {timeout}'',
      ''kubectl describe clusterroles {kubeconfig_arg} --request-timeout {timeout}'',
      ''kubectl describe clusterrolebindings {kubeconfig_arg} --request-timeout {timeout}'',
      ''kubectl describe crd {kubeconfig_arg} --request-timeout {timeout}'',
      ''kubectl describe nodes {kubeconfig_arg} --request-timeout {timeout}'']"

definition KUBECTL_PER_NS_CMDS :: "string list" where
  "KUBECTL_PER_NS_CMDS =
     [''kubectl get all -o wide {kubeconfig_arg} --request-timeout {timeout} --namespace {namespace}'',
      ''kubectl get all -o yaml {kubeconfig_arg} --request-timeout {timeout} --namespace {namespace}'',
      ''kubectl describe all {kubeconfig_arg} --request-timeout {timeout} --namespace {namespace}'']"

definition KUBECTL_PER_POD_CMDS :: "string list" where
  "KUBECTL_PER_POD_CMDS =
     [''kubectl logs {kubeconfig_arg} {pod} --container {container} --request-timeout {timeout} --namespace {namespace}'']"

subsection \<open>The command line\<close>

text \<open>
  \<open>parse_args\<close>: the value of \<open>--kubeconfig\<close>, else the environment variable \<open>KUBECONFIG\<close>,
  else the empty string; the value of \<open>--timeout\<close>, else \<open>CMD_TIMEOUT_SEC\<close>.
\<close>

record invocation =
  opt_kubeconfig :: "string option"
  opt_timeout :: "int option"
  env_KUBECONFIG :: "string option"

definition parse_args :: "invocation \<Rightarrow> string \<times> int" where
  "parse_args a =
     (case opt_kubeconfig a of
        Some k \<Rightarrow> k
      | None \<Rightarrow> (case env_KUBECONFIG a of Some k \<Rightarrow> k | None \<Rightarrow> []),
      case opt_timeout a of Some t \<Rightarrow> t | None \<Rightarrow> CMD_TIMEOUT_SEC)"

subsection \<open>The traversal and the archive\<close>

text \<open>
  \<open>with tempfile.TemporaryDirectory() as tmp_dir\<close>: the directory is created, the body runs,
  and the directory is removed with all below it, also when the body raises.
\<close>

definition below :: "string list \<Rightarrow> string list \<times> node \<Rightarrow> bool" where
  "below d kn = prefix d (fst kn)"

definition TemporaryDirectory :: "env \<Rightarrow> (string \<Rightarrow> unit io) \<Rightarrow> unit io" where
  "TemporaryDirectory e body w =
     (let d = fs_key (cwd e) (parse_part (tmp_dir e))
      in if lookup (fs w) d \<noteq> None then (Inl (Raised OSError), w)
         else
           (case mkdir_parents [] d (fs w) of
              Inl x \<Rightarrow> (Inl (Raised x), w)
            | Inr t \<Rightarrow>
                (case body (tmp_dir e) (w\<lparr>fs := t\<rparr>) of
                   (Inl Blocked, w1) \<Rightarrow> (Inl Blocked, w1)
                 | (r, w1) \<Rightarrow> (r, w1\<lparr>fs := filter (\<lambda>kn. \<not> below d kn) (fs w1)\<rparr>))))"

text \<open>The nodes at and below the directory \<open>d\<close>, named from \<open>d\<close>.\<close>

definition subtree :: "string list \<Rightarrow> (string list \<times> node) list \<Rightarrow> (string list \<times> node) list" where
  "subtree d t = map (\<lambda>kn. (drop (length d) (fst kn), snd kn)) (filter (below d) t)"

text \<open>
  The archive \<open>snapshot-<now>.tar.gz\<close> of the working directory receives the tree below the
  output directory under the top-level name \<open>snapshot-<now>\<close>.
\<close>

definition package :: "env \<Rightarrow> path \<Rightarrow> unit io" where
  "package e output_dir w =
     (let snapshot_name = ''snapshot-'' @ str_int (now e);
          file = snapshot_name @ ''.tar.gz''
      in (Inr (),
          print (Created (str_path (joinpath (parse_part (cwd e)) file)))
            (w\<lparr>archives := archives w @
               [(file, snapshot_name, subtree (fs_key (cwd e) output_dir) (fs w))]\<rparr>)))"

text \<open>The bodies of the loops of \<open>main\<close>, innermost first, and \<open>main\<close>.\<close>

definition global_step :: "env \<Rightarrow> string \<Rightarrow> string \<Rightarrow> path \<Rightarrow> string \<Rightarrow> unit io" where
  "global_step e kubeconfig timeout output_dir cmd =
     bind (formatted (format cmd [(''kubeconfig_arg'', kubeconfig), (''timeout'', timeout)]))
       (\<lambda>c. run_cmd e c ''global'' output_dir)"

definition namespace_cmd_step ::
  "env \<Rightarrow> string \<Rightarrow> string \<Rightarrow> path \<Rightarrow> string \<Rightarrow> string \<Rightarrow> unit io"
where
  "namespace_cmd_step e kubeconfig timeout output_dir namespace cmd =
     bind (formatted (format cmd
             [(''kubeconfig_arg'', kubeconfig), (''timeout'', timeout), (''namespace'', namespace)]))
       (\<lambda>c. run_cmd e c (''namespaces/'' @ namespace) output_dir)"

definition container_cmd_step ::
  "env \<Rightarrow> string \<Rightarrow> string \<Rightarrow> path \<Rightarrow> string \<Rightarrow> string \<Rightarrow> string \<Rightarrow> string \<Rightarrow> unit io"
where
  "container_cmd_step e kubeconfig timeout output_dir namespace pod container cmd =
     bind (formatted (format cmd
             [(''kubeconfig_arg'', kubeconfig), (''timeout'', timeout), (''namespace'', namespace),
              (''pod'', pod), (''container'', container)]))
       (\<lambda>c. run_cmd e c (''namespaces/'' @ namespace @ ''/'' @ pod) output_dir)"

definition pod_step :: "env \<Rightarrow> string \<Rightarrow> string \<Rightarrow> path \<Rightarrow> string \<Rightarrow> string \<Rightarrow> unit io" where
  "pod_step e kubeconfig timeout output_dir namespace pod =
     bind (get_kubectl_list e ''pod'' kubeconfig timeout (Some namespace) pod
             ''{.spec.containers[*].name}'')
       (\<lambda>containers.
          bind (iter containers)
            (\<lambda>cs. for_each cs
                     (\<lambda>container.
                        for_each KUBECTL_PER_POD_CMDS
                          (container_cmd_step e kubeconfig timeout output_dir namespace pod
                             container))))"

definition namespace_step :: "env \<Rightarrow> string \<Rightarrow> string \<Rightarrow> path \<Rightarrow> string \<Rightarrow> unit io" where
  "namespace_step e kubeconfig timeout output_dir namespace =
     bind (for_each KUBECTL_PER_NS_CMDS
             (namespace_cmd_step e kubeconfig timeout output_dir namespace))
       (\<lambda>u. bind (get_kubectl_list e ''pods'' kubeconfig timeout (Some namespace) []
                    default_jsonpath)
              (\<lambda>pods.
                 bind (iter pods)
                   (\<lambda>ps. for_each ps (pod_step e kubeconfig timeout output_dir namespace))))"

text \<open>The kubeconfig argument and the timeout argument that \<open>main\<close> puts into the commands.\<close>

definition kubeconfig_arg :: "env \<Rightarrow> string \<Rightarrow> string" where
  "kubeconfig_arg e kubeconfig =
     (if kubeconfig \<noteq> []
      then ''--kubeconfig '' @ str_path (absolute (cwd e) (parse_part kubeconfig))
      else kubeconfig)"

definition timeout_arg :: "int \<Rightarrow> string" where
  "timeout_arg timeout = str_int timeout @ ''s''"

definition main :: "env \<Rightarrow> invocation \<Rightarrow> unit io" where
  "main e a =
     (case parse_args a of
        (kubeconfig0, timeout0) \<Rightarrow>
          (let timeout = timeout_arg timeout0;
               kubeconfig = kubeconfig_arg e kubeconfig0
           in bind (get_kubectl_list e ''namespaces'' kubeconfig timeout None [] default_jsonpath)
                (\<lambda>namespaces_list.
                   TemporaryDirectory e
                     (\<lambda>tmp_dir.
                        (let output_dir = parse_part tmp_dir
                         in bind (for_each KUBECTL_GLOBAL_CMDS
                                    (global_step e kubeconfig timeout output_dir))
                              (\<lambda>u. bind (iter namespaces_list)
                                     (\<lambda>namespaces.
                                        bind (for_each namespaces
                                                (namespace_step e kubeconfig timeout output_dir))
                                          (\<lambda>u. package e output_dir))))))))"

subsection \<open>What an attempt does\<close>

text \<open>
  An attempt of \<open>run_cmd\<close> fails when the process exits within the 60 units with a return
  code other than 0, succeeds when it exits within them with return code 0, and overruns
  when it is still running after them.
\<close>

definition failed :: "outcome \<Rightarrow> bool" where
  "failed x = (case x of Exits d rc out \<Rightarrow> d \<le> 60 \<and> rc \<noteq> 0 | Never_exits \<Rightarrow> False)"

definition succeeded :: "outcome \<Rightarrow> bool" where
  "succeeded x = (case x of Exits d rc out \<Rightarrow> d \<le> 60 \<and> rc = 0 | Never_exits \<Rightarrow> False)"

definition overran :: "outcome \<Rightarrow> bool" where
  "overran x = (case x of Exits d rc out \<Rightarrow> 60 < d | Never_exits \<Rightarrow> True)"

definition written :: "outcome \<Rightarrow> string" where
  "written x = (case x of Exits d rc out \<Rightarrow> out | Never_exits \<Rightarrow> [])"

text \<open>The file system key of the output file of a command.\<close>

definition output_key :: "env \<Rightarrow> string \<Rightarrow> string \<Rightarrow> path \<Rightarrow> string list" where
  "output_key e cmd subfolder output_dir = fs_key (cwd e) (output_path cmd subfolder output_dir)"

text \<open>The directory of the output file can be made and the file can be opened.\<close>

definition openable :: "env \<Rightarrow> string \<Rightarrow> string \<Rightarrow> path \<Rightarrow> world \<Rightarrow> bool" where
  "openable e cmd subfolder output_dir w =
     (case mkdir_parents [] (fs_key (cwd e) (parent (output_path cmd subfolder output_dir))) (fs w) of
        Inl x \<Rightarrow> False
      | Inr t \<Rightarrow> (case open_w (output_key e cmd subfolder output_dir) t of
                   Inl x \<Rightarrow> False
                 | Inr t1 \<Rightarrow> True))"

text \<open>The launch that \<open>run_cmd\<close> makes for each attempt.\<close>

definition attempt :: "string \<Rightarrow> string list \<Rightarrow> launch" where
  "attempt cmd k = \<lparr>command = cmd, hard_timeout = Some 60, stdout_to = To_file k\<rparr>"

text \<open>The delays of \<open>k\<close> successive failures, the first being \<open>t\<close>.\<close>

definition delays :: "nat \<Rightarrow> nat \<Rightarrow> nat list" where
  "delays t k = map (\<lambda>i. t * 2 ^ i) [0..<k]"

text \<open>The outputs of the attempts \<open>n, ..., n + k - 1\<close> of a command, one after the other.\<close>

definition outputs :: "env \<Rightarrow> string \<Rightarrow> nat \<Rightarrow> nat \<Rightarrow> string" where
  "outputs e cmd n k = concat (map (\<lambda>i. written (proc e cmd (n + i))) [0..<k])"

subsection \<open>What a query does\<close>

text \<open>
  The command of a query, as \<open>get_kubectl_list\<close> builds it with \<open>format\<close> and with
  \<open>-n namespace\<close> for a namespace that is given and not empty.
\<close>

definition list_command ::
  "string \<Rightarrow> string \<Rightarrow> string \<Rightarrow> string option \<Rightarrow> string \<Rightarrow> string \<Rightarrow> string"
where
  \<open>list_command object_type kubeconfig timeout namespace object_name jsonpath =
     ''kubectl get '' @ object_type @ '' '' @ kubeconfig @ '' --request-timeout '' @ timeout @
     '' -o jsonpath="'' @ jsonpath @ ''" '' @ object_name @
     (case namespace of None \<Rightarrow> [] | Some ns \<Rightarrow> if ns \<noteq> [] then '' -n '' @ ns else [])\<close>

text \<open>The launch that \<open>get_kubectl_list\<close> makes for each attempt: no timeout.\<close>

definition query :: "string \<Rightarrow> launch" where
  "query cmd = \<lparr>command = cmd, hard_timeout = None, stdout_to = Capture\<rparr>"

text \<open>An attempt of a query fails when the process exits with a return code other than 0.\<close>

definition refused :: "outcome \<Rightarrow> bool" where
  "refused x = (case x of Exits d rc out \<Rightarrow> rc \<noteq> 0 | Never_exits \<Rightarrow> False)"

text \<open>The claim C4 in its own words: the output split on single spaces, empty tokens removed.\<close>

definition spec_tokens :: "string \<Rightarrow> string list" where
  "spec_tokens out = filter (\<lambda>x. x \<noteq> []) (split CHR '' '' out)"

subsection \<open>The commands after substitution\<close>

text \<open>
  What \<open>format\<close> makes of the three catalogues, for a kubeconfig argument \<open>kc\<close>, a timeout
  argument \<open>t\<close>, a namespace, a pod and a container: each command is the part of its
  template before the kubeconfig argument followed by the arguments.
\<close>

definition global_heads :: "string list" where
  "global_heads =
     [''kubectl version '',
      ''kubectl cluster-info '',
      ''kubectl get clusterroles -o wide '',
      ''kubectl get clusterrolebindings -o wide '',
      ''kubectl get crd -o wide '',
      ''kubectl get nodes -o wide '',
      ''kubectl get clusterroles -o yaml '',
      ''kubectl get clusterrolebindings -o yaml '',
      ''kubectl get crd -o yaml '',
      ''kubectl get nodes -o yaml '',
      ''kubectl describe clusterroles '',
      ''kubectl describe clusterrolebindings '',
      ''kubectl describe crd '',
      ''kubectl describe nodes '']"

definition namespace_heads :: "string list" where
  "namespace_heads =
     [''kubectl get all -o wide '', ''kubectl get all -o yaml '', ''kubectl describe all '']"

definition global_command :: "string \<Rightarrow> string \<Rightarrow> string \<Rightarrow> string" where
  "global_command kc t a = a @ kc @ '' --request-timeout '' @ t"

definition namespace_command :: "string \<Rightarrow> string \<Rightarrow> string \<Rightarrow> string \<Rightarrow> string" where
  "namespace_command kc t namespace a =
     a @ kc @ '' --request-timeout '' @ t @ '' --namespace '' @ namespace"

definition log_command :: "string \<Rightarrow> string \<Rightarrow> string \<Rightarrow> string \<Rightarrow> string \<Rightarrow> string" where
  "log_command kc t namespace pod container =
     ''kubectl logs '' @ kc @ '' '' @ pod @ '' --container '' @ container @
     '' --request-timeout '' @ t @ '' --namespace '' @ namespace"

subsection \<open>Properties of all the commands of a run\<close>




subsection \<open>The tree below the output directory\<close>

definition is_file :: "node option \<Rightarrow> bool" where
  "is_file v = (case v of Some (File c) \<Rightarrow> True | _ \<Rightarrow> False)"

text \<open>The names of the files of a tree, and the commands announced on the console.\<close>

definition files :: "(string list \<times> node) list \<Rightarrow> string list list" where
  "files es = map fst (filter (\<lambda>kn. is_file (Some (snd kn))) es)"

definition executing :: "event list \<Rightarrow> string list" where
  "executing evs = concat (map (\<lambda>ev. case ev of Executing c \<Rightarrow> [c] | _ \<Rightarrow> []) evs)"

text \<open>The key of the temporary directory.\<close>

definition tmp_key :: "env \<Rightarrow> string list" where
  "tmp_key e = fs_key (cwd e) (parse_part (tmp_dir e))"

text \<open>
  The temporary directory can be created and is new: no node has its name, no file is on
  the way to it, nothing is below it, and no name is listed twice in the file system.
\<close>

definition fresh_tmp :: "env \<Rightarrow> world \<Rightarrow> bool" where
  "fresh_tmp e w =
     (lookup (fs w) (tmp_key e) = None \<and>
      (case mkdir_parents [] (tmp_key e) (fs w) of Inl x \<Rightarrow> False | Inr t \<Rightarrow> True) \<and>
      list_all (\<lambda>kn. \<not> prefix (tmp_key e) (fst kn)) (fs w) \<and>
      distinct (map fst (fs w)))"

text \<open>No process is still running after 60 units.\<close>

definition never_overruns :: "env \<Rightarrow> bool" where
  "never_overruns e = (\<forall>cmd n. \<not> overran (proc e cmd n))"

text \<open>Every process of the command \<open>cmd\<close> exits with status 0 and prints the names \<open>xs\<close>.\<close>

definition answers :: "env \<Rightarrow> string \<Rightarrow> string list \<Rightarrow> bool" where
  "answers e cmd xs =
     (\<forall>n. \<exists>d out. proc e cmd n = Exits d 0 out \<and> valid_utf8 out \<and> parse_list out = xs)"

text \<open>
  The state of the file system during the traversal: the output directory \<open>d\<close> and the
  directories on the way to it exist, the files strictly below \<open>d\<close> are the output files \<open>S\<close>
  written so far, and the directories strictly below \<open>d\<close> are those on the way to them.
\<close>

definition tree :: "string list \<Rightarrow> string list list \<Rightarrow> (string list \<times> node) list \<Rightarrow> bool" where
  "tree d S t =
     (distinct (map fst t) \<and> d \<noteq> [] \<and>
      (\<forall>p. p \<noteq> [] \<and> prefix p d \<longrightarrow> map_of t p = Some Dir) \<and>
      (\<forall>k. strict_prefix d k \<longrightarrow>
         (is_file (map_of t k) = (k \<in> set S)) \<and>
         ((map_of t k = Some Dir) = (\<exists>s\<in>set S. strict_prefix k s))))"

text \<open>Two names of which neither is on the way to the other.\<close>

definition apart :: "string list \<Rightarrow> string list \<Rightarrow> bool" where
  "apart k s = (\<not> prefix k s \<and> \<not> prefix s k)"

text \<open>Names of which no two are on the way to each other.\<close>

fun all_apart :: "string list list \<Rightarrow> bool" where
  "all_apart [] = True"
| "all_apart (k # ks) = (list_all (apart k) ks \<and> all_apart ks)"

text \<open>
  The output file of a command \<open>h @ rest\<close> whose head \<open>h\<close> has no slash: the name made of the
  head goes on to the first slash of the rest (\<open>stem\<close>), and the names after the slashes
  follow (\<open>twigs\<close>).
\<close>

definition stem :: "string \<Rightarrow> string" where
  "stem rest = hd (split CHR ''/'' (replace CHR '' '' CHR ''_'' rest))"

definition twigs :: "string \<Rightarrow> string list" where
  "twigs rest =
     filter (\<lambda>x. x \<noteq> [] \<and> x \<noteq> ''.'') (tl (split CHR ''/'' (replace CHR '' '' CHR ''_'' rest)))"

definition file_key :: "env \<Rightarrow> string list \<Rightarrow> string \<Rightarrow> string \<Rightarrow> string list" where
  "file_key e sub h rest = tmp_key e @ sub @ (replace CHR '' '' CHR ''_'' h @ stem rest) # twigs rest"

text \<open>
  A part of the traversal, started in the state \<open>w\<close>: it returns \<open>x\<close>, leaves the output
  files \<open>S\<close> in the tree below \<open>d\<close>, writes no archive and announces the commands \<open>cmds\<close>.
\<close>

definition steps ::
  "string list \<Rightarrow> 'a io \<Rightarrow> world \<Rightarrow> 'a \<Rightarrow> string list list \<Rightarrow> string list \<Rightarrow> bool"
where
  "steps d m w x S cmds =
     (fst (m w) = Inr x \<and> tree d S (fs (snd (m w))) \<and> archives (snd (m w)) = archives w \<and>
      executing (console (snd (m w))) = executing (console w) @ cmds)"

text \<open>
  The output files of the traversal of a cluster with the namespace \<open>default\<close>, the pod
  \<open>web-0\<close> and the container \<open>app\<close>: those of the global commands, those of the commands of
  the namespace, and the log.
\<close>

definition global_rest :: "string \<Rightarrow> string \<Rightarrow> string" where
  "global_rest kc t = kc @ '' --request-timeout '' @ t"

definition namespace_rest :: "string \<Rightarrow> string \<Rightarrow> string \<Rightarrow> string" where
  "namespace_rest kc t namespace = kc @ '' --request-timeout '' @ t @ '' --namespace '' @ namespace"

definition log_rest :: "string \<Rightarrow> string \<Rightarrow> string \<Rightarrow> string \<Rightarrow> string \<Rightarrow> string" where
  "log_rest kc t namespace pod container =
     kc @ '' '' @ pod @ '' --container '' @ container @ '' --request-timeout '' @ t @
     '' --namespace '' @ namespace"

definition global_files :: "env \<Rightarrow> string \<Rightarrow> string \<Rightarrow> string list list" where
  "global_files e kc t = map (\<lambda>h. file_key e [''global''] h (global_rest kc t)) global_heads"

definition default_files :: "env \<Rightarrow> string \<Rightarrow> string \<Rightarrow> string list list" where
  "default_files e kc t =
     map (\<lambda>h. file_key e [''namespaces'', ''default''] h (namespace_rest kc t ''default''))
       namespace_heads"

definition log_file :: "env \<Rightarrow> string \<Rightarrow> string \<Rightarrow> string list" where
  "log_file e kc t =
     file_key e [''namespaces'', ''default'', ''web-0''] ''kubectl logs ''
       (log_rest kc t ''default'' ''web-0'' ''app'')"

subsection \<open>Sample runs\<close>

text \<open>The world before the script has done anything.\<close>

definition start :: world where
  "start = \<lparr>fs = [], console = [], slept = [], launches = [], archives = []\<rparr>"

text \<open>A cluster whose first two processes fail and whose later processes succeed.\<close>

definition flaky :: env where
  "flaky =
     \<lparr>proc = (\<lambda>cmd n. if n < 2 then Exits 1 1 ''refused '' else Exits 1 0 ''ok''),
      cwd = ''/home/user'', tmp_dir = ''/tmp/snap'', now = 17\<rparr>"

text \<open>A cluster that cannot be reached: every process exits with return code 1.\<close>

definition down :: env where
  "down =
     \<lparr>proc = (\<lambda>cmd n. Exits 1 1 ''refused ''),
      cwd = ''/home/user'', tmp_dir = ''/tmp/snap'', now = 17\<rparr>"

text \<open>A cluster that does not answer: every process runs for 1000 time units.\<close>

definition slow :: env where
  "slow =
     \<lparr>proc = (\<lambda>cmd n. Exits 1000 0 ''late''),
      cwd = ''/home/user'', tmp_dir = ''/tmp/snap'', now = 17\<rparr>"

text \<open>A cluster whose first process fails and whose later processes never exit.\<close>

definition stalls :: env where
  "stalls =
     \<lparr>proc = (\<lambda>cmd n. if n < 1 then Exits 1 1 ''refused '' else Never_exits),
      cwd = ''/home/user'', tmp_dir = ''/tmp/snap'', now = 17\<rparr>"

text \<open>The script called without options and without \<open>KUBECONFIG\<close> in the environment.\<close>

definition plain :: invocation where
  "plain = \<lparr>opt_kubeconfig = None, opt_timeout = None, env_KUBECONFIG = None\<rparr>"

text \<open>A cluster whose first five processes fail and whose later processes succeed.\<close>

definition unlisted :: env where
  "unlisted =
     \<lparr>proc = (\<lambda>cmd n. if n < 5 then Exits 1 1 ''refused '' else Exits 1 0 ''ok''),
      cwd = ''/home/user'', tmp_dir = ''/tmp/snap'', now = 17\<rparr>"

text \<open>A cluster whose processes all succeed at once and print nothing.\<close>

definition quiet :: env where
  "quiet =
     \<lparr>proc = (\<lambda>cmd n. Exits 0 0 []),
      cwd = ''/home/user'', tmp_dir = ''/tmp/snap'', now = 17\<rparr>"

text \<open>A cluster whose processes all succeed and print names two spaces apart.\<close>

definition spaced :: env where
  "spaced =
     \<lparr>proc = (\<lambda>cmd n. Exits 1 0 ''a  b  c''),
      cwd = ''/home/user'', tmp_dir = ''/tmp/snap'', now = 17\<rparr>"

text \<open>A cluster whose processes all succeed and print the names of claim C4.\<close>

definition named :: env where
  "named =
     \<lparr>proc = (\<lambda>cmd n. Exits 1 0 ''ns1 ns2  ns3''),
      cwd = ''/home/user'', tmp_dir = ''/tmp/snap'', now = 17\<rparr>"



section \<open>Properties\<close>

subsection \<open>Splitting and paths\<close>

lemma split_not_Nil: "split sep s \<noteq> []"
  by (induction s) (auto split: list.splits)

lemma split_append_sep: "split sep (a @ sep # b) = split sep a @ split sep b"
proof (induction a)
  case Nil
  show ?case by simp
next
  case (Cons c cs)
  obtain p ps where ps: "split sep cs = p # ps"
    using split_not_Nil [of sep cs] by (cases "split sep cs") auto
  show ?case using Cons ps by simp
qed


lemma replace_append: "replace a b (s @ t) = replace a b s @ replace a b t"
  by (simp add: replace_def)

lemma splitroot_relative: "\<not> prefix ''/'' s \<Longrightarrow> splitroot s = ([], s)"
  by (cases s) (auto simp: splitroot_def)

lemma parse_part_relative:
  "\<not> prefix ''/'' s \<Longrightarrow>
   parse_part s = \<lparr>root = [], names = filter (\<lambda>x. x \<noteq> [] \<and> x \<noteq> ''.'') (split CHR ''/'' s)\<rparr>"
  by (simp add: parse_part_def splitroot_relative)

lemma prefix_slash_replace:
  "prefix ''/'' (replace CHR '' '' CHR ''_'' s) = prefix ''/'' s"
  by (cases s) (auto simp: replace_def)

lemma joinpath_relative:
  "\<not> prefix ''/'' s \<Longrightarrow>
   joinpath p s = \<lparr>root = root p, names = names p @ filter (\<lambda>x. x \<noteq> [] \<and> x \<noteq> ''.'') (split CHR ''/'' s)\<rparr>"
  by (simp add: joinpath_def parse_part_relative Let_def)

text \<open>
  Claim C7. For a command and a subfolder that main executes (the command does not begin
  with a slash, the subfolder is not empty and does not begin with a slash), the output file
  is the output directory joined with subfolder, a slash, and the command with every space
  replaced by an underscore. The command \<open>kubectl get all -o wide --namespace foo\<close> is
  written to the file \<open>kubectl_get_all_-o_wide_--namespace_foo\<close> of its subfolder.
\<close>

theorem output_path_rule:
  "(\<not> prefix ''/'' cmd \<and> subfolder \<noteq> [] \<and> \<not> prefix ''/'' subfolder \<longrightarrow>
      output_path cmd subfolder output_dir =
        joinpath output_dir (subfolder @ ''/'' @ replace CHR '' '' CHR ''_'' cmd)) \<and>
   output_path ''kubectl get all -o wide --namespace foo'' subfolder output_dir =
     \<lparr>root = root (joinpath output_dir subfolder),
      names = names (joinpath output_dir subfolder) @ [''kubectl_get_all_-o_wide_--namespace_foo'']\<rparr>"
proof (intro conjI impI)
  assume h: "\<not> prefix ''/'' cmd \<and> subfolder \<noteq> [] \<and> \<not> prefix ''/'' subfolder"
  let ?r = "replace CHR '' '' CHR ''_'' cmd"
  have r: "\<not> prefix ''/'' ?r" using h by (simp add: prefix_slash_replace)
  have s: "\<not> prefix ''/'' (subfolder @ CHR ''/'' # ?r)"
    using h by (cases subfolder) auto
  have "joinpath output_dir (subfolder @ CHR ''/'' # ?r) =
        \<lparr>root = root output_dir,
         names = names output_dir @ filter (\<lambda>x. x \<noteq> [] \<and> x \<noteq> ''.'')
                   (split CHR ''/'' subfolder @ split CHR ''/'' ?r)\<rparr>"
    using joinpath_relative [OF s] by (simp add: split_append_sep)
  moreover have "output_path cmd subfolder output_dir =
        \<lparr>root = root output_dir,
         names = names output_dir @ filter (\<lambda>x. x \<noteq> [] \<and> x \<noteq> ''.'')
                   (split CHR ''/'' subfolder @ split CHR ''/'' ?r)\<rparr>"
    using h r by (simp add: output_path_def joinpath_relative)
  ultimately show "output_path cmd subfolder output_dir = joinpath output_dir (subfolder @ ''/'' @ ?r)"
    by simp
next
  show "output_path ''kubectl get all -o wide --namespace foo'' subfolder output_dir =
     \<lparr>root = root (joinpath output_dir subfolder),
      names = names (joinpath output_dir subfolder) @ [''kubectl_get_all_-o_wide_--namespace_foo'']\<rparr>"
    by (simp add: output_path_def joinpath_def parse_part_def splitroot_def replace_def Let_def del: path.ext_inject)
qed

theorem output_path_rule_witness:
  "\<not> prefix ''/'' ''kubectl version --request-timeout 15s'' \<and> ''global'' \<noteq> [] \<and> \<not> prefix ''/'' ''global'' \<and>
   output_path ''kubectl version --request-timeout 15s'' ''global'' (parse_part ''/tmp/x'') =
     joinpath (parse_part ''/tmp/x'') ''global/kubectl_version_--request-timeout_15s'' \<and>
   str_path (output_path ''kubectl version --request-timeout 15s'' ''global'' (parse_part ''/tmp/x'')) =
     ''/tmp/x/global/kubectl_version_--request-timeout_15s''"
  using output_path_rule [of "''kubectl version --request-timeout 15s''" "''global''" "parse_part ''/tmp/x''"]
  by (simp add: replace_def joinpath_def parse_part_def splitroot_def str_path_def)

text \<open>
  Claim C8. The file name of a command is not injective: two commands that differ only in
  a space against an underscore are written to the same file of a subfolder.
\<close>

theorem output_path_not_injective:
  "''kubectl get pods'' \<noteq> ''kubectl get_pods'' \<and>
   output_path ''kubectl get pods'' subfolder output_dir =
   output_path ''kubectl get_pods'' subfolder output_dir"
  by (simp add: output_path_def replace_def)


subsection \<open>The retry loop of the Command Executor\<close>

lemma upt_0_Suc: "[0..<Suc k] = 0 # map Suc [0..<k]"
  by (simp add: upt_conv_Cons map_Suc_upt del: upt_Suc)

lemma delays_Suc: "delays t (Suc k) = t # delays (t * 2) k"
  unfolding delays_def upt_0_Suc by (simp add: comp_def)

lemma outputs_Suc: "outputs e cmd n (Suc k) = written (proc e cmd n) @ outputs e cmd (Suc n) k"
  unfolding outputs_def upt_0_Suc by (simp add: comp_def)

lemma delays_0: "delays t 0 = []" by (simp add: delays_def)
lemma outputs_0: "outputs e cmd n 0 = []" by (simp add: outputs_def)

lemma subprocess_run_file_exit:
  assumes "proc e cmd (length (launches w)) = Exits d rc out" "d \<le> 60"
    "map_of (fs w) k = Some (File body)"
  shows "subprocess_run e cmd (To_file k) (Some 60) w =
     (Inr \<lparr>returncode = rc, stdout = None\<rparr>,
      w\<lparr>launches := launches w @ [attempt cmd k],
        fs := AList.update k (File (body @ out)) (fs w)\<rparr>)"
  using assms by (simp add: subprocess_run_def write_out_def attempt_def Let_def)


lemma run_cmd_loop_retry:
  assumes "\<forall>i<k. failed (proc e cmd (length (launches w) + i))"
    and "succeeded (proc e cmd (length (launches w) + k))"
    and "c + k \<le> BACKOFF_LIMIT"
    and "map_of (fs w) key = Some (File body)"
  shows "run_cmd_loop e cmd key t c w =
     (Inr (),
      w\<lparr>fs := AList.update key (File (body @ outputs e cmd (length (launches w)) (Suc k))) (fs w),
        console := console w @ map Retry (delays t k) @ [Done],
        slept := slept w @ delays t k,
        launches := launches w @ replicate (Suc k) (attempt cmd key)\<rparr>)"
  using assms
proof (induction k arbitrary: t c w body)
  case 0
  then obtain d out where p: "proc e cmd (length (launches w)) = Exits d 0 out" "d \<le> 60"
    by (auto simp: succeeded_def split: outcome.splits)
  have c: "\<not> BACKOFF_LIMIT < c" using 0 by simp
  show ?case
    using c subprocess_run_file_exit [OF p "0.prems"(4)] p
    by (subst run_cmd_loop.simps) (simp add: delays_0 outputs_Suc outputs_0 written_def print_def)
next
  case (Suc k)
  have "failed (proc e cmd (length (launches w)))" using Suc.prems(1) by force
  then obtain d rc out where p: "proc e cmd (length (launches w)) = Exits d rc out" "d \<le> 60" "rc \<noteq> 0"
    by (auto simp: failed_def split: outcome.splits)
  have c: "\<not> BACKOFF_LIMIT < c" using Suc.prems by simp
  let ?w1 = "w\<lparr>launches := launches w @ [attempt cmd key],
        fs := AList.update key (File (body @ out)) (fs w)\<rparr>"
  let ?w2 = "sleep t (print (Retry t) ?w1)"
  have step: "run_cmd_loop e cmd key t c w = run_cmd_loop e cmd key (t * 2) (c + 1) ?w2"
    using c subprocess_run_file_exit [OF p(1,2) Suc.prems(4)] p(3)
    by (subst run_cmd_loop.simps) simp
  have a1: "\<forall>i<k. failed (proc e cmd (length (launches ?w2) + i))"
    using Suc.prems(1) by (auto simp: sleep_def print_def)
  have a2: "succeeded (proc e cmd (length (launches ?w2) + k))"
    using Suc.prems(2) by (simp add: sleep_def print_def)
  have a3: "(c + 1) + k \<le> BACKOFF_LIMIT" using Suc.prems(3) by simp
  have a4: "map_of (fs ?w2) key = Some (File (body @ out))"
    by (simp add: sleep_def print_def update_conv')
  show ?case
    unfolding step Suc.IH [OF a1 a2 a3 a4]
    using p(1)
    by (simp add: sleep_def print_def delays_Suc outputs_Suc [of e cmd "length (launches w)" "Suc k"] written_def)
qed


lemma run_cmd_loop_exhaust:
  assumes "\<forall>i<n. failed (proc e cmd (length (launches w) + i))"
    and "c + n = Suc BACKOFF_LIMIT"
    and "map_of (fs w) key = Some (File body)"
  shows "run_cmd_loop e cmd key t c w =
     (Inr (),
      w\<lparr>fs := AList.update key (File (body @ outputs e cmd (length (launches w)) n)) (fs w),
        console := console w @ map Retry (delays t n) @ [Fail],
        slept := slept w @ delays t n,
        launches := launches w @ replicate n (attempt cmd key)\<rparr>)"
  using assms
proof (induction n arbitrary: t c w body)
  case 0
  have c: "BACKOFF_LIMIT < c" using 0 by simp
  have "AList.update key (File body) (fs w) = fs w"
    using "0.prems"(3) by (rule update_triv)
  then show ?case
    using c by (subst run_cmd_loop.simps) (simp add: delays_0 outputs_0 print_def)
next
  case (Suc n)
  have "failed (proc e cmd (length (launches w)))" using Suc.prems(1) by force
  then obtain d rc out where p: "proc e cmd (length (launches w)) = Exits d rc out" "d \<le> 60" "rc \<noteq> 0"
    by (auto simp: failed_def split: outcome.splits)
  have c: "\<not> BACKOFF_LIMIT < c" using Suc.prems by simp
  let ?w1 = "w\<lparr>launches := launches w @ [attempt cmd key],
        fs := AList.update key (File (body @ out)) (fs w)\<rparr>"
  let ?w2 = "sleep t (print (Retry t) ?w1)"
  have step: "run_cmd_loop e cmd key t c w = run_cmd_loop e cmd key (t * 2) (c + 1) ?w2"
    using c subprocess_run_file_exit [OF p(1,2) Suc.prems(3)] p(3)
    by (subst run_cmd_loop.simps) simp
  have a1: "\<forall>i<n. failed (proc e cmd (length (launches ?w2) + i))"
    using Suc.prems(1) by (auto simp: sleep_def print_def)
  have a3: "(c + 1) + n = Suc BACKOFF_LIMIT" using Suc.prems(2) by simp
  have a4: "map_of (fs ?w2) key = Some (File (body @ out))"
    by (simp add: sleep_def print_def update_conv')
  show ?case
    unfolding step Suc.IH [OF a1 a3 a4]
    using p(1)
    by (simp add: sleep_def print_def delays_Suc outputs_Suc [of e cmd "length (launches w)" n] written_def)
qed




text \<open>What run_cmd does before its loop.\<close>

lemma open_w_file: "open_w k t = Inr t1 \<Longrightarrow> t1 = AList.update k (File []) t"
  by (auto simp: open_w_def split: option.splits node.splits)

lemma run_cmd_unfold:
  assumes "openable e cmd subfolder output_dir w"
  obtains t where
    "mkdir_parents [] (fs_key (cwd e) (parent (output_path cmd subfolder output_dir))) (fs w) = Inr t"
    "open_w (output_key e cmd subfolder output_dir) t = Inr (AList.update (output_key e cmd subfolder output_dir) (File []) t)"
    "run_cmd e cmd subfolder output_dir w =
       run_cmd_loop e cmd (output_key e cmd subfolder output_dir) 1 0
         (w\<lparr>fs := AList.update (output_key e cmd subfolder output_dir) (File []) t,
            console := console w @ [Executing cmd]\<rparr>)"
proof -
  obtain t t1 where t: "mkdir_parents [] (fs_key (cwd e) (parent (output_path cmd subfolder output_dir))) (fs w) = Inr t"
     and t1: "open_w (output_key e cmd subfolder output_dir) t = Inr t1"
    using assms by (auto simp: openable_def split: sum.splits)
  have e1: "t1 = AList.update (output_key e cmd subfolder output_dir) (File []) t"
    using t1 by (rule open_w_file)
  have "run_cmd e cmd subfolder output_dir w =
       run_cmd_loop e cmd (output_key e cmd subfolder output_dir) 1 0
         (w\<lparr>fs := AList.update (output_key e cmd subfolder output_dir) (File []) t,
            console := console w @ [Executing cmd]\<rparr>)"
  proof -
    have weq: "\<And>a b. w\<lparr>console := a, fs := b\<rparr> = w\<lparr>fs := b, console := a\<rparr>" by simp
    show ?thesis
      using t t1 e1 by (simp add: run_cmd_def output_key_def Let_def print_def weq)
  qed
  then show ?thesis using that t t1 e1 by simp
qed





subsection \<open>The Command Executor\<close>

lemma delays_1: "delays 1 k = map (\<lambda>i. 2 ^ i) [0..<k]"
  by (simp add: delays_def)

lemma run_cmd_retry:
  assumes o: "openable e cmd subfolder output_dir w"
    and f: "\<forall>i<k. failed (proc e cmd (length (launches w) + i))"
    and s: "succeeded (proc e cmd (length (launches w) + k))"
    and k: "k \<le> BACKOFF_LIMIT"
  shows "\<exists>t. run_cmd e cmd subfolder output_dir w =
     (Inr (),
      w\<lparr>fs := AList.update (output_key e cmd subfolder output_dir)
               (File (outputs e cmd (length (launches w)) (Suc k))) t,
        console := console w @ [Executing cmd] @ map Retry (delays 1 k) @ [Done],
        slept := slept w @ delays 1 k,
        launches := launches w @ replicate (Suc k) (attempt cmd (output_key e cmd subfolder output_dir))\<rparr>)"
proof -
  let ?key = "output_key e cmd subfolder output_dir"
  from o obtain t where
    u: "run_cmd e cmd subfolder output_dir w =
       run_cmd_loop e cmd ?key 1 0
         (w\<lparr>fs := AList.update ?key (File []) t, console := console w @ [Executing cmd]\<rparr>)"
    by (rule run_cmd_unfold)
  let ?w1 = "w\<lparr>fs := AList.update ?key (File []) t, console := console w @ [Executing cmd]\<rparr>"
  have a1: "\<forall>i<k. failed (proc e cmd (length (launches ?w1) + i))" using f by simp
  have a2: "succeeded (proc e cmd (length (launches ?w1) + k))" using s by simp
  have a3: "0 + k \<le> BACKOFF_LIMIT" using k by simp
  have a4: "map_of (fs ?w1) ?key = Some (File [])" by (simp add: update_conv')
  show ?thesis
    unfolding u run_cmd_loop_retry [OF a1 a2 a3 a4] by (intro exI [of _ t]) simp
qed

lemma run_cmd_exhaust:
  assumes o: "openable e cmd subfolder output_dir w"
    and f: "\<forall>i<Suc BACKOFF_LIMIT. failed (proc e cmd (length (launches w) + i))"
  shows "\<exists>t. run_cmd e cmd subfolder output_dir w =
     (Inr (),
      w\<lparr>fs := AList.update (output_key e cmd subfolder output_dir)
               (File (outputs e cmd (length (launches w)) (Suc BACKOFF_LIMIT))) t,
        console := console w @ [Executing cmd] @ map Retry (delays 1 (Suc BACKOFF_LIMIT)) @ [Fail],
        slept := slept w @ delays 1 (Suc BACKOFF_LIMIT),
        launches := launches w @ replicate (Suc BACKOFF_LIMIT) (attempt cmd (output_key e cmd subfolder output_dir))\<rparr>)"
proof -
  let ?key = "output_key e cmd subfolder output_dir"
  from o obtain t where
    u: "run_cmd e cmd subfolder output_dir w =
       run_cmd_loop e cmd ?key 1 0
         (w\<lparr>fs := AList.update ?key (File []) t, console := console w @ [Executing cmd]\<rparr>)"
    by (rule run_cmd_unfold)
  let ?w1 = "w\<lparr>fs := AList.update ?key (File []) t, console := console w @ [Executing cmd]\<rparr>"
  have a1: "\<forall>i<Suc BACKOFF_LIMIT. failed (proc e cmd (length (launches ?w1) + i))" using f by simp
  have a3: "0 + Suc BACKOFF_LIMIT = Suc BACKOFF_LIMIT" by simp
  have a4: "map_of (fs ?w1) ?key = Some (File [])" by (simp add: update_conv')
  show ?thesis
    unfolding u run_cmd_loop_exhaust [OF a1 a3 a4] by (intro exI [of _ t]) simp
qed


lemma lookup_update_file: "lookup (AList.update k (File c) t) k = Some (File c) \<or> k = []"
  by (simp add: lookup_def update_conv')




lemma start_simps:
  "fs start = []" "console start = []" "slept start = []" "launches start = []" "archives start = []"
  by (simp_all add: start_def)

lemma sample_openable:
  "openable flaky ''kubectl version'' ''global'' (parse_part ''/tmp/snap'') start"
  "openable down ''kubectl version'' ''global'' (parse_part ''/tmp/snap'') start"
  "openable slow ''kubectl version'' ''global'' (parse_part ''/tmp/snap'') start"
  "openable stalls ''kubectl version'' ''global'' (parse_part ''/tmp/snap'') start"
  by code_simp+

lemma sample_key:
  "output_key flaky ''kubectl version'' ''global'' (parse_part ''/tmp/snap'') = [''tmp'', ''snap'', ''global'', ''kubectl_version'']"
  "output_key down ''kubectl version'' ''global'' (parse_part ''/tmp/snap'') = [''tmp'', ''snap'', ''global'', ''kubectl_version'']"
  by code_simp+




text \<open>
  Claim C9. The output file is opened, and emptied, once, before the first attempt, and each
  attempt writes after the one before: when the first \<open>k \<le> 4\<close> attempts fail and attempt
  \<open>k + 1\<close> succeeds the file holds the output of all \<open>k + 1\<close> attempts in their order, and
  when all five attempts fail the file exists and holds the output of the five.
\<close>

theorem run_cmd_file:
  "(openable e cmd subfolder output_dir w \<and> k \<le> 4 \<and>
    (\<forall>i<k. failed (proc e cmd (length (launches w) + i))) \<and>
    succeeded (proc e cmd (length (launches w) + k)) \<longrightarrow>
      map_of (fs (snd (run_cmd e cmd subfolder output_dir w))) (output_key e cmd subfolder output_dir) =
        Some (File (concat (map (\<lambda>i. written (proc e cmd (length (launches w) + i))) [0..<k + 1])))) \<and>
   (openable e cmd subfolder output_dir w \<and>
    (\<forall>i<5. failed (proc e cmd (length (launches w) + i))) \<longrightarrow>
      map_of (fs (snd (run_cmd e cmd subfolder output_dir w))) (output_key e cmd subfolder output_dir) =
        Some (File (concat (map (\<lambda>i. written (proc e cmd (length (launches w) + i))) [0..<5]))))"
proof (intro conjI impI)
  assume h: "openable e cmd subfolder output_dir w \<and> k \<le> 4 \<and>
    (\<forall>i<k. failed (proc e cmd (length (launches w) + i))) \<and>
    succeeded (proc e cmd (length (launches w) + k))"
  then have k: "k \<le> BACKOFF_LIMIT" by (simp add: BACKOFF_LIMIT_def)
  obtain t where r: "run_cmd e cmd subfolder output_dir w =
     (Inr (),
      w\<lparr>fs := AList.update (output_key e cmd subfolder output_dir)
               (File (outputs e cmd (length (launches w)) (Suc k))) t,
        console := console w @ [Executing cmd] @ map Retry (delays 1 k) @ [Done],
        slept := slept w @ delays 1 k,
        launches := launches w @ replicate (Suc k) (attempt cmd (output_key e cmd subfolder output_dir))\<rparr>)"
    using run_cmd_retry [of e cmd subfolder output_dir w k] h k by blast
  show "map_of (fs (snd (run_cmd e cmd subfolder output_dir w))) (output_key e cmd subfolder output_dir) =
        Some (File (concat (map (\<lambda>i. written (proc e cmd (length (launches w) + i))) [0..<k + 1])))"
    by (simp add: r update_conv' outputs_def)
next
  assume h: "openable e cmd subfolder output_dir w \<and>
    (\<forall>i<5. failed (proc e cmd (length (launches w) + i)))"
  then have f: "\<forall>i<Suc BACKOFF_LIMIT. failed (proc e cmd (length (launches w) + i))"
    by (simp add: BACKOFF_LIMIT_def)
  obtain t where r: "run_cmd e cmd subfolder output_dir w =
     (Inr (),
      w\<lparr>fs := AList.update (output_key e cmd subfolder output_dir)
               (File (outputs e cmd (length (launches w)) (Suc BACKOFF_LIMIT))) t,
        console := console w @ [Executing cmd] @ map Retry (delays 1 (Suc BACKOFF_LIMIT)) @ [Fail],
        slept := slept w @ delays 1 (Suc BACKOFF_LIMIT),
        launches := launches w @ replicate (Suc BACKOFF_LIMIT) (attempt cmd (output_key e cmd subfolder output_dir))\<rparr>)"
    using run_cmd_exhaust [of e cmd subfolder output_dir w] h f by blast
  have five: "Suc BACKOFF_LIMIT = 5" by (simp add: BACKOFF_LIMIT_def)
  show "map_of (fs (snd (run_cmd e cmd subfolder output_dir w))) (output_key e cmd subfolder output_dir) =
        Some (File (concat (map (\<lambda>i. written (proc e cmd (length (launches w) + i))) [0..<5])))"
    unfolding r five by (simp add: update_conv' outputs_def)
qed

theorem run_cmd_file_witness:
  "openable flaky ''kubectl version'' ''global'' (parse_part ''/tmp/snap'') start \<and> (2::nat) \<le> 4 \<and>
   failed (proc flaky ''kubectl version'' 0) \<and>
   failed (proc flaky ''kubectl version'' 1) \<and>
   succeeded (proc flaky ''kubectl version'' 2) \<and>
   map_of (fs (snd (run_cmd flaky ''kubectl version'' ''global'' (parse_part ''/tmp/snap'') start)))
     [''tmp'', ''snap'', ''global'', ''kubectl_version''] = Some (File ''refused refused ok'') \<and>
   openable down ''kubectl version'' ''global'' (parse_part ''/tmp/snap'') start \<and>
   failed (proc down ''kubectl version'' 0) \<and>
   failed (proc down ''kubectl version'' 1) \<and>
   failed (proc down ''kubectl version'' 2) \<and>
   failed (proc down ''kubectl version'' 3) \<and>
   failed (proc down ''kubectl version'' 4) \<and>
   map_of (fs (snd (run_cmd down ''kubectl version'' ''global'' (parse_part ''/tmp/snap'') start)))
     [''tmp'', ''snap'', ''global'', ''kubectl_version''] =
       Some (File ''refused refused refused refused refused '')"
proof -
  have f: "\<forall>i<2. failed (proc flaky ''kubectl version'' (length (launches start) + i))"
    by (simp add: flaky_def failed_def start_simps)
  have s: "succeeded (proc flaky ''kubectl version'' (length (launches start) + 2))"
    by (simp add: flaky_def succeeded_def start_simps)
  have d: "\<forall>i<5. failed (proc down ''kubectl version'' (length (launches start) + i))"
    by (simp add: down_def failed_def)
  have u3: "[0..<3] = [0, 1, 2]" and u5: "[0..<5] = [0, 1, 2, 3, 4]"
    by (simp_all add: upt_rec)
  have p: "\<And>n. proc flaky ''kubectl version'' n = (if n < 2 then Exits 1 1 ''refused '' else Exits 1 0 ''ok'')"
    "\<And>n. proc down ''kubectl version'' n = Exits 1 1 ''refused ''"
    by (simp_all add: flaky_def down_def)
  show ?thesis
    using run_cmd_file [of flaky "''kubectl version''" "''global''" "parse_part ''/tmp/snap''" start 2]
      run_cmd_file [of down "''kubectl version''" "''global''" "parse_part ''/tmp/snap''" start 0]
      sample_openable f s d
    by (simp add: start_simps u3 u5 sample_key p written_def failed_def succeeded_def)
qed




subsection \<open>The Object Lister\<close>

lemma format_lister_template:
  "format lister_template
     [(''kubeconfig_arg'', kc), (''jsonpath'', jp), (''timeout'', t), (''obj_type'', ty), (''obj_name'', nm)] =
   Inr (list_command ty kc t None nm jp)"
  by (simp add: format_def lister_template_def list_command_def emit_def)

lemma get_kubectl_list_eq:
  "get_kubectl_list e ty kc t ns nm jp w =
     get_kubectl_list_loop e (list_command ty kc t ns nm jp) 1 0
       (print (Executing (list_command ty kc t ns nm jp)) w)"
proof -
  have c: "(case ns of None \<Rightarrow> list_command ty kc t None nm jp
            | Some n \<Rightarrow> if n \<noteq> [] then list_command ty kc t None nm jp @ '' -n '' @ n
                        else list_command ty kc t None nm jp) = list_command ty kc t ns nm jp"
    by (simp add: list_command_def split: option.splits)
  show ?thesis
    unfolding get_kubectl_list_def format_lister_template
    by (simp add: bind_def formatted_def Let_def c)
qed

lemma subprocess_run_capture:
  "subprocess_run e cmd Capture None w =
     (case proc e cmd (length (launches w)) of
        Never_exits \<Rightarrow> (Inl Blocked, w\<lparr>launches := launches w @ [query cmd]\<rparr>)
      | Exits d rc out \<Rightarrow>
          (Inr \<lparr>returncode = rc, stdout = Some out\<rparr>, w\<lparr>launches := launches w @ [query cmd]\<rparr>))"
  by (simp add: subprocess_run_def query_def Let_def split: outcome.splits)

lemma lister_loop_step:
  "get_kubectl_list_loop e cmd t c w =
     (if c > BACKOFF_LIMIT then (Inr None, w\<lparr>console := console w @ [Fail]\<rparr>)
      else case proc e cmd (length (launches w)) of
        Never_exits \<Rightarrow> (Inl Blocked, w\<lparr>launches := launches w @ [query cmd]\<rparr>)
      | Exits d rc out \<Rightarrow>
          if rc = 0 then
            (if valid_utf8 out then Inr (Some (parse_list out)) else Inl (Raised UnicodeDecodeError),
             w\<lparr>launches := launches w @ [query cmd], console := console w @ [Done]\<rparr>)
          else get_kubectl_list_loop e cmd (t * 2) (c + 1)
                 (w\<lparr>launches := launches w @ [query cmd], console := console w @ [Retry t],
                    slept := slept w @ [t]\<rparr>))"
  by (subst get_kubectl_list_loop.simps)
     (simp add: subprocess_run_capture print_def sleep_def decode_def Let_def split: outcome.splits)



lemma lister_loop_result:
  "fst (get_kubectl_list_loop e cmd t c w) = Inr (Some xs) \<Longrightarrow>
   \<exists>d out. proc e cmd (length (launches (snd (get_kubectl_list_loop e cmd t c w))) - 1) = Exits d 0 out \<and>
           valid_utf8 out \<and> xs = parse_list out"
proof (induction e cmd t c w rule: get_kubectl_list_loop.induct)
  case (1 e cmd t c w)
  show ?case
  proof (cases "c > BACKOFF_LIMIT")
    case True
    then show ?thesis using "1.prems" by (subst (asm) lister_loop_step) simp
  next
    case False
    show ?thesis
    proof (cases "proc e cmd (length (launches w))")
      case Never_exits
      then show ?thesis using False "1.prems" by (subst (asm) lister_loop_step) simp
    next
      case (Exits d rc out)
      show ?thesis
      proof (cases "rc = 0")
        case True
        have r: "get_kubectl_list_loop e cmd t c w =
          (if valid_utf8 out then Inr (Some (parse_list out)) else Inl (Raised UnicodeDecodeError),
             w\<lparr>launches := launches w @ [query cmd], console := console w @ [Done]\<rparr>)"
          using False Exits True by (subst lister_loop_step) simp
        show ?thesis using "1.prems" Exits True unfolding r by (auto split: if_splits)
      next
        case nz: False
        let ?w2 = "w\<lparr>launches := launches w @ [query cmd], console := console w @ [Retry t],
                    slept := slept w @ [t]\<rparr>"
        have w2: "?w2 = sleep t (print (Retry t) (snd (subprocess_run e cmd Capture None w)))"
          using Exits by (simp add: subprocess_run_capture sleep_def print_def)
        have r: "subprocess_run e cmd Capture None w =
            (Inr \<lparr>returncode = rc, stdout = Some out\<rparr>, snd (subprocess_run e cmd Capture None w))"
          using Exits by (simp add: subprocess_run_capture)
        have step: "get_kubectl_list_loop e cmd t c w =
            get_kubectl_list_loop e cmd (t * 2) (c + 1) ?w2"
          using False Exits nz by (subst lister_loop_step) simp
        show ?thesis
          using "1.IH" [OF False r [symmetric] refl] nz "1.prems"
          unfolding w2 [symmetric] step by auto
      qed
    qed
  qed
qed

lemma remove1_filter:
  "count_list xs x \<le> 1 \<Longrightarrow> remove1 x xs = filter (\<lambda>y. y \<noteq> x) xs"
proof (induction xs)
  case Nil
  show ?case by simp
next
  case (Cons a xs)
  show ?case
  proof (cases "a = x")
    case True
    then have "count_list xs x = 0" using Cons.prems by simp
    then have "x \<notin> set xs" by (simp add: count_list_0_iff)
    then have "filter (\<lambda>y. y \<noteq> x) xs = xs" by (induction xs) auto
    then show ?thesis using True by simp
  next
    case False
    then show ?thesis using Cons by simp
  qed
qed

lemma parse_list_tokens:
  "count_list (split CHR '' '' (strip text)) [] \<le> 1 \<Longrightarrow>
   parse_list text = spec_tokens (strip text)"
proof -
  assume c: "count_list (split CHR '' '' (strip text)) [] \<le> 1"
  let ?l = "split CHR '' '' (strip text)"
  have r: "remove1 [] ?l = filter (\<lambda>y. y \<noteq> []) ?l"
    using c by (rule remove1_filter)
  have "[] \<notin> set ?l \<Longrightarrow> filter (\<lambda>y. y \<noteq> []) ?l = ?l"
    by (auto simp: filter_id_conv)
  then show ?thesis
    using r by (auto simp: parse_list_def spec_tokens_def Let_def)
qed

text \<open>
  Claim C4, amended. A query that succeeds returns the list made of the output of its last
  process, which exited with status 0. When the output, stripped of the white space at its
  two ends and split on single spaces, has at most one empty token, the list is that split
  with the empty tokens removed, in order. The output \<open>ns1 ns2  ns3\<close> gives
  \<open>ns1\<close>, \<open>ns2\<close>, \<open>ns3\<close>, and the empty output gives the empty list.
\<close>

theorem lister_tokens:
  "(fst (get_kubectl_list e object_type kubeconfig timeout namespace object_name jsonpath w) =
      Inr (Some xs) \<longrightarrow>
    (\<exists>d out.
       proc e (list_command object_type kubeconfig timeout namespace object_name jsonpath)
         (length (launches (snd (get_kubectl_list e object_type kubeconfig timeout namespace
                                   object_name jsonpath w))) - 1) = Exits d 0 out \<and>
       (count_list (split CHR '' '' (strip out)) [] \<le> 1 \<longrightarrow> xs = spec_tokens (strip out)))) \<and>
   parse_list ''ns1 ns2  ns3'' = [''ns1'', ''ns2'', ''ns3''] \<and>
   parse_list [] = []"
proof (intro conjI impI)
  assume "fst (get_kubectl_list e object_type kubeconfig timeout namespace object_name jsonpath w) =
      Inr (Some xs)"
  then show "\<exists>d out.
       proc e (list_command object_type kubeconfig timeout namespace object_name jsonpath)
         (length (launches (snd (get_kubectl_list e object_type kubeconfig timeout namespace
                                   object_name jsonpath w))) - 1) = Exits d 0 out \<and>
       (count_list (split CHR '' '' (strip out)) [] \<le> 1 \<longrightarrow> xs = spec_tokens (strip out))"
    unfolding get_kubectl_list_eq
    using lister_loop_result parse_list_tokens by blast
next
  show "parse_list ''ns1 ns2  ns3'' = [''ns1'', ''ns2'', ''ns3'']" by code_simp
next
  show "parse_list [] = []" by code_simp
qed

theorem lister_tokens_witness:
  "fst (get_kubectl_list named ''namespaces'' [] ''15s'' None [] default_jsonpath start) =
     Inr (Some [''ns1'', ''ns2'', ''ns3'']) \<and>
   count_list (split CHR '' '' (strip ''ns1 ns2  ns3'')) [] \<le> 1 \<and>
   (\<exists>d out.
       proc named (list_command ''namespaces'' [] ''15s'' None [] default_jsonpath)
         (length (launches (snd (get_kubectl_list named ''namespaces'' [] ''15s'' None []
                                   default_jsonpath start))) - 1) = Exits d 0 out \<and>
       [''ns1'', ''ns2'', ''ns3''] = spec_tokens (strip out))"
proof -
  have h: "fst (get_kubectl_list named ''namespaces'' [] ''15s'' None [] default_jsonpath start) =
     Inr (Some [''ns1'', ''ns2'', ''ns3''])"
    by code_simp
  have c: "count_list (split CHR '' '' (strip ''ns1 ns2  ns3'')) [] \<le> 1"
    by code_simp
  have p: "\<And>cmd n. proc named cmd n = Exits 1 0 ''ns1 ns2  ns3''"
    by (simp add: named_def)
  show ?thesis
    using lister_tokens [of named "''namespaces''" "[]" "''15s''" None "[]" default_jsonpath start
        "[''ns1'', ''ns2'', ''ns3'']"] h c
    by (simp add: p)
qed

text \<open>
  Claim C4 says that the returned list is the output split on single spaces without any
  empty token. The output \<open>a  b  c\<close>, with two double spaces, gives a list with an empty
  token: \<open>list.remove\<close> takes out the first one only. An output that ends with a line
  feed loses it, because the output is stripped before it is split.
\<close>

theorem lister_tokens_counterexample:
  "fst (get_kubectl_list spaced ''namespaces'' [] ''15s'' None [] default_jsonpath start) =
     Inr (Some [''a'', ''b'', [], ''c'']) \<and>
   spec_tokens ''a  b  c'' = [''a'', ''b'', ''c''] \<and>
   parse_list [CHR ''a'', CHR '' '', CHR ''b'', CHR 0x0A] = [''a'', ''b''] \<and>
   spec_tokens [CHR ''a'', CHR '' '', CHR ''b'', CHR 0x0A] = [''a'', [CHR ''b'', CHR 0x0A]]"
  by code_simp

lemma main_unlisted:
  "(case main unlisted plain start of
      (r, w) \<Rightarrow> (r, length (launches w), archives w)) = (Inl (Raised TypeError), 19, [])"
  by code_simp

lemma lister_unlisted:
  "(case get_kubectl_list unlisted ''namespaces'' [] ''15s'' None [] default_jsonpath start of
      (r, w) \<Rightarrow> (r, length (launches w))) = (Inr None, 5)"
  by code_simp

text \<open>
  Claim C1 says that a query whose attempts all fail returns an empty sequence and that the
  caller goes on with fewer commands. Against a cluster whose first five processes fail,
  the query for the namespaces returns \<open>None\<close> after its five attempts; \<open>main\<close> runs the 14
  global commands, then raises \<open>TypeError\<close> at the loop over the namespaces and writes no
  archive.
\<close>

theorem lister_exhausted_returns_None:
  "fst (get_kubectl_list unlisted ''namespaces'' [] ''15s'' None [] default_jsonpath start) = Inr None \<and>
   length (launches (snd (get_kubectl_list unlisted ''namespaces'' [] ''15s'' None [] default_jsonpath start))) = 5 \<and>
   fst (main unlisted plain start) = Inl (Raised TypeError) \<and>
   length (launches (snd (main unlisted plain start))) = 19 \<and>
   archives (snd (main unlisted plain start)) = []"
  using main_unlisted lister_unlisted by (simp add: case_prod_beta)

lemma main_quiet:
  "map hard_timeout (launches (snd (main quiet plain start))) = None # replicate 14 (Some 60)"
  by code_simp

text \<open>
  Claim C5 says that every process is run with the timeout of 60 units. In a run against a
  cluster without namespaces the query is launched without a timeout and the 14 global
  commands with 60 units. A query whose process takes 1000 units returns its output, and a
  query whose process never exits never returns.
\<close>

theorem lister_has_no_timeout:
  "map hard_timeout (launches (snd (main quiet plain start))) = None # replicate 14 (Some 60) \<and>
   fst (get_kubectl_list slow ''namespaces'' [] ''15s'' None [] default_jsonpath start) =
     Inr (Some [''late'']) \<and>
   fst (get_kubectl_list stalls ''namespaces'' [] ''15s'' None [] default_jsonpath start) = Inl Blocked"
proof (intro conjI)
  show "map hard_timeout (launches (snd (main quiet plain start))) = None # replicate 14 (Some 60)"
    by (rule main_quiet)
  show "fst (get_kubectl_list slow ''namespaces'' [] ''15s'' None [] default_jsonpath start) =
     Inr (Some [''late''])"
    by code_simp
  show "fst (get_kubectl_list stalls ''namespaces'' [] ''15s'' None [] default_jsonpath start) = Inl Blocked"
    by code_simp
qed

subsection \<open>The catalogues after substitution\<close>

lemma format_global:
  "map (\<lambda>c. format c [(''kubeconfig_arg'', kc), (''timeout'', t)]) KUBECTL_GLOBAL_CMDS =
   map (\<lambda>a. Inr (global_command kc t a)) global_heads"
  by (simp add: KUBECTL_GLOBAL_CMDS_def global_heads_def global_command_def format_def emit_def)

lemma format_namespace:
  "map (\<lambda>c. format c [(''kubeconfig_arg'', kc), (''timeout'', t), (''namespace'', ns)])
     KUBECTL_PER_NS_CMDS =
   map (\<lambda>a. Inr (namespace_command kc t ns a)) namespace_heads"
  by (simp add: KUBECTL_PER_NS_CMDS_def namespace_heads_def namespace_command_def format_def emit_def)

lemma format_pod:
  "map (\<lambda>c. format c [(''kubeconfig_arg'', kc), (''timeout'', t), (''namespace'', ns),
                        (''pod'', pod), (''container'', container)])
     KUBECTL_PER_POD_CMDS =
   [Inr (log_command kc t ns pod container)]"
  by (simp add: KUBECTL_PER_POD_CMDS_def log_command_def format_def emit_def)

lemma for_each_map: "for_each (map f xs) body = for_each xs (\<lambda>x. body (f x))"
proof
  fix w show "for_each (map f xs) body w = for_each xs (\<lambda>x. body (f x)) w"
    by (induction xs arbitrary: w) (auto split: prod.splits sum.splits)
qed

lemma for_each_cong_map:
  "map f xs = map g ys \<Longrightarrow> for_each xs f = for_each ys g"
proof -
  assume h: "map f xs = map g ys"
  have "for_each xs f = for_each (map f xs) (\<lambda>m. m)" by (simp add: for_each_map)
  also have "\<dots> = for_each (map g ys) (\<lambda>m. m)" by (simp only: h)
  also have "\<dots> = for_each ys g" by (simp add: for_each_map)
  finally show ?thesis .
qed

lemma bind_formatted_Inr: "bind (formatted (Inr c)) f = f c"
  by (rule ext) (simp add: bind_def formatted_def)

lemma global_loop_eq:
  "for_each KUBECTL_GLOBAL_CMDS (global_step e kc t output_dir) =
   for_each global_heads (\<lambda>a. run_cmd e (global_command kc t a) ''global'' output_dir)"
proof (rule for_each_cong_map)
  have "map (global_step e kc t output_dir) KUBECTL_GLOBAL_CMDS =
     map (\<lambda>r. bind (formatted r) (\<lambda>c. run_cmd e c ''global'' output_dir))
       (map (\<lambda>c. format c [(''kubeconfig_arg'', kc), (''timeout'', t)]) KUBECTL_GLOBAL_CMDS)"
    by (simp add: global_step_def comp_def)
  also have "\<dots> = map (\<lambda>a. run_cmd e (global_command kc t a) ''global'' output_dir) global_heads"
    unfolding format_global by (simp add: comp_def bind_formatted_Inr)
  finally show "map (global_step e kc t output_dir) KUBECTL_GLOBAL_CMDS =
     map (\<lambda>a. run_cmd e (global_command kc t a) ''global'' output_dir) global_heads" .
qed

lemma namespace_loop_eq:
  "for_each KUBECTL_PER_NS_CMDS (namespace_cmd_step e kc t output_dir ns) =
   for_each namespace_heads
     (\<lambda>a. run_cmd e (namespace_command kc t ns a) (''namespaces/'' @ ns) output_dir)"
proof (rule for_each_cong_map)
  have "map (namespace_cmd_step e kc t output_dir ns) KUBECTL_PER_NS_CMDS =
     map (\<lambda>r. bind (formatted r) (\<lambda>c. run_cmd e c (''namespaces/'' @ ns) output_dir))
       (map (\<lambda>c. format c [(''kubeconfig_arg'', kc), (''timeout'', t), (''namespace'', ns)])
          KUBECTL_PER_NS_CMDS)"
    by (simp add: namespace_cmd_step_def comp_def)
  also have "\<dots> = map (\<lambda>a. run_cmd e (namespace_command kc t ns a) (''namespaces/'' @ ns) output_dir)
       namespace_heads"
    unfolding format_namespace by (simp add: comp_def bind_formatted_Inr)
  finally show "map (namespace_cmd_step e kc t output_dir ns) KUBECTL_PER_NS_CMDS =
     map (\<lambda>a. run_cmd e (namespace_command kc t ns a) (''namespaces/'' @ ns) output_dir)
       namespace_heads" .
qed

lemma pod_loop_eq:
  "for_each KUBECTL_PER_POD_CMDS (container_cmd_step e kc t output_dir ns pod container) =
   for_each [log_command kc t ns pod container]
     (\<lambda>c. run_cmd e c (''namespaces/'' @ ns @ ''/'' @ pod) output_dir)"
proof (rule for_each_cong_map)
  have "map (container_cmd_step e kc t output_dir ns pod container) KUBECTL_PER_POD_CMDS =
     map (\<lambda>r. bind (formatted r) (\<lambda>c. run_cmd e c (''namespaces/'' @ ns @ ''/'' @ pod) output_dir))
       (map (\<lambda>c. format c [(''kubeconfig_arg'', kc), (''timeout'', t), (''namespace'', ns),
                        (''pod'', pod), (''container'', container)])
          KUBECTL_PER_POD_CMDS)"
    by (simp add: container_cmd_step_def comp_def)
  also have "\<dots> = map (\<lambda>c. run_cmd e c (''namespaces/'' @ ns @ ''/'' @ pod) output_dir)
       [log_command kc t ns pod container]"
    unfolding format_pod by (simp add: bind_formatted_Inr)
  finally show "map (container_cmd_step e kc t output_dir ns pod container) KUBECTL_PER_POD_CMDS =
     map (\<lambda>c. run_cmd e c (''namespaces/'' @ ns @ ''/'' @ pod) output_dir)
       [log_command kc t ns pod container]" .
qed

subsection \<open>The commands of a run\<close>


































subsection \<open>The tree below the output directory\<close>

lemma lookup_nonempty: "k \<noteq> [] \<Longrightarrow> lookup t k = map_of t k"
  by (simp add: lookup_def)

lemma mkdir_parents_ok:
  assumes "\<forall>q. q \<noteq> [] \<and> prefix q ks \<longrightarrow> \<not> is_file (map_of t (pre @ q))"
  shows "\<exists>t'. mkdir_parents pre ks t = Inr t' \<and>
           (distinct (map fst t) \<longrightarrow> distinct (map fst t')) \<and>
           (\<forall>k. map_of t' k =
              (if (\<exists>q. q \<noteq> [] \<and> prefix q ks \<and> k = pre @ q) \<and> map_of t k = None
               then Some Dir else map_of t k))"
  using assms
proof (induction ks arbitrary: pre t)
  case Nil
  then show ?case by simp
next
  case (Cons x xs)
  let ?p = "pre @ [x]"
  have nf: "\<not> is_file (map_of t ?p)" using Cons.prems by (metis Cons_prefix_Cons Nil_prefix list.distinct(1))
  have sub: "\<And>t1. (\<forall>k. \<not> is_file (map_of t k) \<longrightarrow> \<not> is_file (map_of t1 k)) \<Longrightarrow>
      \<forall>q. q \<noteq> [] \<and> prefix q xs \<longrightarrow> \<not> is_file (map_of t1 (?p @ q))"
  proof (intro allI impI)
    fix t1 q
    assume t1: "\<forall>k. \<not> is_file (map_of t k) \<longrightarrow> \<not> is_file (map_of t1 k)"
      and q: "q \<noteq> [] \<and> prefix q xs"
    then have "prefix (x # q) (x # xs)" by simp
    then have "\<not> is_file (map_of t (pre @ x # q))" using Cons.prems by blast
    then show "\<not> is_file (map_of t1 (?p @ q))" using t1 by simp
  qed
  have qs: "\<And>k. (\<exists>q. q \<noteq> [] \<and> prefix q (x # xs) \<and> k = pre @ q) =
      (k = ?p \<or> (\<exists>q. q \<noteq> [] \<and> prefix q xs \<and> k = ?p @ q))"
  proof
    fix k
    assume "\<exists>q. q \<noteq> [] \<and> prefix q (x # xs) \<and> k = pre @ q"
    then obtain q where q: "q \<noteq> []" "prefix q (x # xs)" "k = pre @ q" by blast
    then obtain q' where q': "q = x # q'" "prefix q' xs" by (cases q) auto
    show "k = ?p \<or> (\<exists>q. q \<noteq> [] \<and> prefix q xs \<and> k = ?p @ q)"
      using q q' by (cases "q' = []") auto
  next
    fix k
    assume "k = ?p \<or> (\<exists>q. q \<noteq> [] \<and> prefix q xs \<and> k = ?p @ q)"
    then show "\<exists>q. q \<noteq> [] \<and> prefix q (x # xs) \<and> k = pre @ q"
    proof
      assume "k = ?p"
      then have "[x] \<noteq> [] \<and> prefix [x] (x # xs) \<and> k = pre @ [x]" by simp
      then show ?thesis by blast
    next
      assume "\<exists>q. q \<noteq> [] \<and> prefix q xs \<and> k = ?p @ q"
      then obtain q where "q \<noteq> []" "prefix q xs" "k = ?p @ q" by blast
      then have "x # q \<noteq> [] \<and> prefix (x # q) (x # xs) \<and> k = pre @ x # q" by simp
      then show ?thesis by blast
    qed
  qed
  show ?case
  proof (cases "map_of t ?p")
    case None
    let ?t1 = "AList.update ?p Dir t"
    have "\<forall>k. \<not> is_file (map_of t k) \<longrightarrow> \<not> is_file (map_of ?t1 k)"
      by (simp add: update_conv' is_file_def)
    then obtain t' where t': "mkdir_parents ?p xs ?t1 = Inr t'"
        "distinct (map fst ?t1) \<longrightarrow> distinct (map fst t')"
        "\<forall>k. map_of t' k =
              (if (\<exists>q. q \<noteq> [] \<and> prefix q xs \<and> k = ?p @ q) \<and> map_of ?t1 k = None
               then Some Dir else map_of ?t1 k)"
      using Cons.IH [of ?t1 ?p] sub by blast
    have 1: "mkdir_parents pre (x # xs) t = Inr t'"
      using None t'(1) by (simp add: lookup_nonempty)
    have 2: "distinct (map fst t) \<longrightarrow> distinct (map fst t')"
      using t'(2) by (simp add: distinct_update)
    have 3: "\<forall>k. map_of t' k =
              (if (\<exists>q. q \<noteq> [] \<and> prefix q (x # xs) \<and> k = pre @ q) \<and> map_of t k = None
               then Some Dir else map_of t k)"
      unfolding qs using t'(3) None by (auto simp: update_conv')
    show ?thesis using 1 2 3 by blast
  next
    case (Some v)
    then have v: "v = Dir" using nf by (cases v) (auto simp: is_file_def)
    obtain t' where t': "mkdir_parents ?p xs t = Inr t'"
        "distinct (map fst t) \<longrightarrow> distinct (map fst t')"
        "\<forall>k. map_of t' k =
              (if (\<exists>q. q \<noteq> [] \<and> prefix q xs \<and> k = ?p @ q) \<and> map_of t k = None
               then Some Dir else map_of t k)"
      using Cons.IH [of t ?p] sub by blast
    have 1: "mkdir_parents pre (x # xs) t = Inr t'"
      using Some v t'(1) by (simp add: lookup_nonempty)
    have 3: "\<forall>k. map_of t' k =
              (if (\<exists>q. q \<noteq> [] \<and> prefix q (x # xs) \<and> k = pre @ q) \<and> map_of t k = None
               then Some Dir else map_of t k)"
      unfolding qs using t'(3) Some by auto
    show ?thesis using 1 t'(2) 3 by blast
  qed
qed

lemma executing_append: "executing (xs @ ys) = executing xs @ executing ys"
  by (simp add: executing_def)

lemma executing_simps:
  "executing [] = []" "executing [Executing c] = [c]" "executing [Done] = []"
  "executing [Fail] = []" "executing [Retry n] = []" "executing [Created s] = []"
  by (simp_all add: executing_def)

lemma run_cmd_loop_effect:
  "never_overruns e \<Longrightarrow> map_of (fs w) key = Some (File body) \<Longrightarrow>
     \<exists>c'. fst (run_cmd_loop e cmd key t c w) = Inr () \<and>
          fs (snd (run_cmd_loop e cmd key t c w)) = AList.update key (File c') (fs w) \<and>
          archives (snd (run_cmd_loop e cmd key t c w)) = archives w \<and>
          executing (console (snd (run_cmd_loop e cmd key t c w))) = executing (console w)"
proof (induction e cmd key t c w arbitrary: body rule: run_cmd_loop.induct)
  case (1 e cmd k backoff_timer backoff_count w)
  have no: "never_overruns e" by fact
  have mb: "map_of (fs w) k = Some (File body)" by fact
  show ?case
  proof (cases "backoff_count > BACKOFF_LIMIT")
    case True
    have "AList.update k (File body) (fs w) = fs w"
      using mb by (rule update_triv)
    then have "fst (run_cmd_loop e cmd k backoff_timer backoff_count w) = Inr () \<and>
          fs (snd (run_cmd_loop e cmd k backoff_timer backoff_count w)) = AList.update k (File body) (fs w) \<and>
          archives (snd (run_cmd_loop e cmd k backoff_timer backoff_count w)) = archives w \<and>
          executing (console (snd (run_cmd_loop e cmd k backoff_timer backoff_count w))) = executing (console w)"
      using True
      by (subst (1 2 3 4) run_cmd_loop.simps) (simp add: print_def executing_append executing_simps)
    then show ?thesis by blast
  next
    case False
    have "\<not> overran (proc e cmd (length (launches w)))" using no by (simp add: never_overruns_def)
    then obtain d rc out where p: "proc e cmd (length (launches w)) = Exits d rc out" "d \<le> 60"
      by (cases "proc e cmd (length (launches w))") (auto simp: overran_def)
    let ?w1 = "w\<lparr>launches := launches w @ [attempt cmd k],
        fs := AList.update k (File (body @ out)) (fs w)\<rparr>"
    have r: "subprocess_run e cmd (To_file k) (Some 60) w =
       (Inr \<lparr>returncode = rc, stdout = None\<rparr>, ?w1)"
      using p mb by (rule subprocess_run_file_exit)
    show ?thesis
    proof (cases "rc = 0")
      case True
      have "run_cmd_loop e cmd k backoff_timer backoff_count w = (Inr (), print Done ?w1)"
        using False r True by (subst run_cmd_loop.simps) simp
      then have "fst (run_cmd_loop e cmd k backoff_timer backoff_count w) = Inr () \<and>
          fs (snd (run_cmd_loop e cmd k backoff_timer backoff_count w)) = AList.update k (File (body @ out)) (fs w) \<and>
          archives (snd (run_cmd_loop e cmd k backoff_timer backoff_count w)) = archives w \<and>
          executing (console (snd (run_cmd_loop e cmd k backoff_timer backoff_count w))) = executing (console w)"
        by (simp add: print_def executing_append executing_simps)
      then show ?thesis by blast
    next
      case nz: False
      let ?w2 = "sleep backoff_timer (print (Retry backoff_timer) ?w1)"
      have step: "run_cmd_loop e cmd k backoff_timer backoff_count w =
          run_cmd_loop e cmd k (backoff_timer * 2) (backoff_count + 1) ?w2"
        using False r nz by (subst run_cmd_loop.simps) simp
      have m: "map_of (fs ?w2) k = Some (File (body @ out))"
        by (simp add: sleep_def print_def update_conv')
      obtain c' where c': "fst (run_cmd_loop e cmd k (backoff_timer * 2) (backoff_count + 1) ?w2) = Inr ()"
        "fs (snd (run_cmd_loop e cmd k (backoff_timer * 2) (backoff_count + 1) ?w2)) =
           AList.update k (File c') (fs ?w2)"
        "archives (snd (run_cmd_loop e cmd k (backoff_timer * 2) (backoff_count + 1) ?w2)) = archives ?w2"
        "executing (console (snd (run_cmd_loop e cmd k (backoff_timer * 2) (backoff_count + 1) ?w2))) =
           executing (console ?w2)"
      proof -
        have nz': "returncode \<lparr>returncode = rc, stdout = None\<rparr> \<noteq> 0" using nz by simp
        show ?thesis using "1.IH" [OF False r [symmetric] refl nz' no m] that by blast
      qed
      have "fst (run_cmd_loop e cmd k backoff_timer backoff_count w) = Inr () \<and>
          fs (snd (run_cmd_loop e cmd k backoff_timer backoff_count w)) = AList.update k (File c') (fs w) \<and>
          archives (snd (run_cmd_loop e cmd k backoff_timer backoff_count w)) = archives w \<and>
          executing (console (snd (run_cmd_loop e cmd k backoff_timer backoff_count w))) = executing (console w)"
        unfolding step using c'
        by (simp add: sleep_def print_def executing_append executing_simps)
      then show ?thesis by blast
    qed
  qed
qed

lemma prefix_butlast: "k \<noteq> [] \<Longrightarrow> prefix q (butlast k) = strict_prefix q k"
proof -
  assume "k \<noteq> []"
  then obtain ys y where k: "k = ys @ [y]" by (metis append_butlast_last_id)
  show ?thesis unfolding k by (auto simp: strict_prefix_def prefix_snoc)
qed

lemma tree_step:
  assumes tr: "tree d S t" and below: "strict_prefix d key" and ap: "\<forall>s\<in>set S. apart key s"
  shows "\<exists>t'. mkdir_parents [] (butlast key) t = Inr t' \<and>
           open_w key t' = Inr (AList.update key (File []) t') \<and>
           (\<forall>c. tree d (S @ [key]) (AList.update key (File c) t'))"
proof -
  have dist: "distinct (map fst t)" and d: "d \<noteq> []"
    and anc: "\<And>p. p \<noteq> [] \<Longrightarrow> prefix p d \<Longrightarrow> map_of t p = Some Dir"
    and fl: "\<And>k. strict_prefix d k \<Longrightarrow> is_file (map_of t k) = (k \<in> set S)"
    and dr: "\<And>k. strict_prefix d k \<Longrightarrow> (map_of t k = Some Dir) = (\<exists>s\<in>set S. strict_prefix k s)"
    using tr by (auto simp: tree_def)
  have key: "key \<noteq> []" using below by auto
  have notS: "key \<notin> set S" using ap by (auto simp: apart_def)
  have way: "\<And>q. q \<noteq> [] \<Longrightarrow> strict_prefix q key \<Longrightarrow> \<not> is_file (map_of t q)"
  proof -
    fix q assume q: "q \<noteq> []" "strict_prefix q key"
    have "prefix q d \<or> strict_prefix d q"
      using q(2) below by (metis prefix_same_cases strict_prefix_def prefix_order.less_le)
    then show "\<not> is_file (map_of t q)"
    proof
      assume "prefix q d"
      then show ?thesis using anc [OF q(1)] by (simp add: is_file_def)
    next
      assume dq: "strict_prefix d q"
      have "q \<notin> set S" using ap q(2) by (auto simp: apart_def)
      then show ?thesis using fl [OF dq] by simp
    qed
  qed
  have "\<forall>q. q \<noteq> [] \<and> prefix q (butlast key) \<longrightarrow> \<not> is_file (map_of t ([] @ q))"
    using way by (simp add: prefix_butlast [OF key])
  then obtain t' where mk: "mkdir_parents [] (butlast key) t = Inr t'"
    and dist': "distinct (map fst t) \<longrightarrow> distinct (map fst t')"
    and m0: "\<forall>k. map_of t' k =
              (if (\<exists>q. q \<noteq> [] \<and> prefix q (butlast key) \<and> k = [] @ q) \<and> map_of t k = None
               then Some Dir else map_of t k)"
    using mkdir_parents_ok [of "butlast key" t "[]"] by blast
  have m: "\<And>k. map_of t' k =
      (if k \<noteq> [] \<and> strict_prefix k key \<and> map_of t k = None then Some Dir else map_of t k)"
    using m0 by (auto simp: prefix_butlast [OF key])
  have mkey: "map_of t' key = None"
  proof -
    have "map_of t' key = map_of t key" using m [of key] by simp
    moreover have "\<not> is_file (map_of t key)" using fl [OF below] notS by simp
    moreover have "map_of t key \<noteq> Some Dir" using dr [OF below] ap by (auto simp: apart_def)
    ultimately show ?thesis
      by (cases "map_of t key") (auto simp: is_file_def split: node.splits)
  qed
  have par: "lookup t' (butlast key) = Some Dir"
  proof (cases "butlast key = []")
    case True
    then show ?thesis by (simp add: lookup_def)
  next
    case False
    have sp: "strict_prefix (butlast key) key" using prefix_butlast [OF key, of "butlast key"] by simp
    have nf: "\<not> is_file (map_of t (butlast key))" using way [OF False sp] .
    have "map_of t' (butlast key) = Some Dir"
      using m [of "butlast key"] False sp nf
      by (cases "map_of t (butlast key)") (auto simp: is_file_def split: node.splits)
    then show ?thesis using False by (simp add: lookup_def)
  qed
  have op: "open_w key t' = Inr (AList.update key (File []) t')"
    using mkey par key by (simp add: open_w_def lookup_def)
  have tr': "tree d (S @ [key]) (AList.update key (File c) t')" for c
  proof -
    let ?t = "AList.update key (File c) t'"
    have mm: "\<And>k. map_of ?t k = (if k = key then Some (File c) else map_of t' k)"
      by (simp add: update_conv')
    have 1: "distinct (map fst ?t)" using dist dist' by (simp add: distinct_update)
    have 2: "\<forall>p. p \<noteq> [] \<and> prefix p d \<longrightarrow> map_of ?t p = Some Dir"
    proof (intro allI impI)
      fix p assume p: "p \<noteq> [] \<and> prefix p d"
      then have "p \<noteq> key" using below by auto
      moreover have "map_of t p = Some Dir" using anc p by simp
      ultimately show "map_of ?t p = Some Dir" using mm m by simp
    qed
    have 3: "\<forall>k. strict_prefix d k \<longrightarrow>
         (is_file (map_of ?t k) = (k \<in> set (S @ [key]))) \<and>
         ((map_of ?t k = Some Dir) = (\<exists>s\<in>set (S @ [key]). strict_prefix k s))"
    proof (intro allI impI)
      fix k assume dk: "strict_prefix d k"
      then have kne: "k \<noteq> []" by auto
      show "(is_file (map_of ?t k) = (k \<in> set (S @ [key]))) \<and>
         ((map_of ?t k = Some Dir) = (\<exists>s\<in>set (S @ [key]). strict_prefix k s))"
      proof (cases "k = key")
        case True
        have "\<not> (\<exists>s\<in>set S. strict_prefix key s)" using ap by (auto simp: apart_def)
        then show ?thesis using True mm by (auto simp: is_file_def)
      next
        case False
        show ?thesis
        proof (cases "strict_prefix k key")
          case True
          have nf: "\<not> is_file (map_of t k)" using way [OF kne True] .
          then have kS: "k \<notin> set S" using fl [OF dk] by simp
          have "map_of t' k = Some Dir"
            using m [of k] kne True nf
            by (cases "map_of t k") (auto simp: is_file_def split: node.splits)
          then show ?thesis using False mm True kS by (auto simp: is_file_def)
        next
          case nsp: False
          have e: "map_of ?t k = map_of t k" using False nsp mm m by simp
          show ?thesis using e fl [OF dk] dr [OF dk] False nsp by auto
        qed
      qed
    qed
    show ?thesis unfolding tree_def using 1 d 2 3 by blast
  qed
  show ?thesis using mk op tr' by blast
qed

lemma run_cmd_tree:
  assumes no: "never_overruns e"
    and tr: "tree d S (fs w)"
    and key: "output_key e cmd sub dir = key"
    and par: "fs_key (cwd e) (parent (output_path cmd sub dir)) = butlast key"
    and below: "strict_prefix d key"
    and ap: "\<forall>s\<in>set S. apart key s"
  shows "fst (run_cmd e cmd sub dir w) = Inr () \<and>
         tree d (S @ [key]) (fs (snd (run_cmd e cmd sub dir w))) \<and>
         archives (snd (run_cmd e cmd sub dir w)) = archives w \<and>
         executing (console (snd (run_cmd e cmd sub dir w))) = executing (console w) @ [cmd]"
proof -
  obtain t' where mk: "mkdir_parents [] (butlast key) (fs w) = Inr t'"
    and op: "open_w key t' = Inr (AList.update key (File []) t')"
    and tr': "\<And>c. tree d (S @ [key]) (AList.update key (File c) t')"
    using tree_step [OF tr below ap] by blast
  let ?w1 = "w\<lparr>fs := AList.update key (File []) t', console := console w @ [Executing cmd]\<rparr>"
  have weq: "\<And>a b. w\<lparr>console := a, fs := b\<rparr> = w\<lparr>fs := b, console := a\<rparr>" by simp
  have u: "run_cmd e cmd sub dir w = run_cmd_loop e cmd key 1 0 ?w1"
    using mk op key par
    by (simp add: run_cmd_def output_key_def Let_def print_def weq)
  have m: "map_of (fs ?w1) key = Some (File [])" by (simp add: update_conv')
  obtain c' where c': "fst (run_cmd_loop e cmd key 1 0 ?w1) = Inr ()"
      "fs (snd (run_cmd_loop e cmd key 1 0 ?w1)) = AList.update key (File c') (fs ?w1)"
      "archives (snd (run_cmd_loop e cmd key 1 0 ?w1)) = archives ?w1"
      "executing (console (snd (run_cmd_loop e cmd key 1 0 ?w1))) = executing (console ?w1)"
    using run_cmd_loop_effect [OF no m] by blast
  show ?thesis
    unfolding u using c' tr' by (simp add: executing_append executing_simps)
qed

lemma split_head:
  "sep \<notin> set p \<Longrightarrow> split sep (p @ s) = (p @ hd (split sep s)) # tl (split sep s)"
proof (induction p)
  case Nil
  show ?case using split_not_Nil [of sep s] by (cases "split sep s") auto
next
  case (Cons c p)
  then show ?case by auto
qed

lemma replace_no_slash: "CHR ''/'' \<notin> set h \<Longrightarrow> CHR ''/'' \<notin> set (replace CHR '' '' CHR ''_'' h)"
  by (auto simp: replace_def)

lemma names_command:
  assumes h: "CHR ''/'' \<notin> set h" and l: "2 \<le> length h"
  shows "parse_part (replace CHR '' '' CHR ''_'' (h @ rest)) =
     \<lparr>root = [], names = (replace CHR '' '' CHR ''_'' h @ stem rest) # twigs rest\<rparr>"
proof -
  let ?h = "replace CHR '' '' CHR ''_'' h"
  let ?r = "replace CHR '' '' CHR ''_'' rest"
  have hn: "?h \<noteq> []" using l by (auto simp: replace_def)
  have ns: "CHR ''/'' \<notin> set ?h" using h by (rule replace_no_slash)
  have rel: "\<not> prefix ''/'' (?h @ ?r)" using hn ns by (cases ?h) auto
  have len: "2 \<le> length (?h @ stem rest)" using l by (simp add: replace_def)
  have ok: "?h @ stem rest \<noteq> [] \<and> ?h @ stem rest \<noteq> ''.''"
  proof
    show "?h @ stem rest \<noteq> []" using len by auto
    show "?h @ stem rest \<noteq> ''.''"
    proof
      assume "?h @ stem rest = ''.''"
      then have "length (?h @ stem rest) = 1" by simp
      then show False using len by simp
    qed
  qed
  show ?thesis
    using ok
    by (simp add: replace_append parse_part_relative [OF rel] split_head [OF ns] stem_def twigs_def)
qed

lemma output_key_shape:
  assumes h: "CHR ''/'' \<notin> set h" and l: "2 \<le> length h" and s: "\<not> prefix ''/'' sub"
  shows "output_key e (h @ rest) sub (parse_part (tmp_dir e)) =
           file_key e (names (parse_part sub)) h rest"
    and "fs_key (cwd e) (parent (output_path (h @ rest) sub (parse_part (tmp_dir e)))) =
           butlast (file_key e (names (parse_part sub)) h rest)"
proof -
  let ?dir = "parse_part (tmp_dir e)"
  let ?n = "(replace CHR '' '' CHR ''_'' h @ stem rest) # twigs rest"
  have c: "joinpath p (replace CHR '' '' CHR ''_'' (h @ rest)) = \<lparr>root = root p, names = names p @ ?n\<rparr>" for p
    by (simp add: joinpath_def names_command [OF h l] Let_def)
  have j: "joinpath ?dir sub = \<lparr>root = root ?dir, names = names ?dir @ names (parse_part sub)\<rparr>"
    using s by (simp add: joinpath_def parse_part_relative Let_def)
  have p: "output_path (h @ rest) sub ?dir =
      \<lparr>root = root ?dir, names = names ?dir @ names (parse_part sub) @ ?n\<rparr>"
    by (simp add: output_path_def c j)
  show "output_key e (h @ rest) sub ?dir = file_key e (names (parse_part sub)) h rest"
    by (simp add: output_key_def p fs_key_def absolute_def file_key_def tmp_key_def)
  show "fs_key (cwd e) (parent (output_path (h @ rest) sub ?dir)) =
           butlast (file_key e (names (parse_part sub)) h rest)"
    by (simp add: p parent_def fs_key_def absolute_def file_key_def tmp_key_def butlast_append)
qed

lemma apart_sym: "apart a b = apart b a"
  by (auto simp: apart_def)

lemma all_apart_append:
  "all_apart (xs @ ys) = (all_apart xs \<and> all_apart ys \<and> (\<forall>x\<in>set xs. \<forall>y\<in>set ys. apart x y))"
  by (induction xs) (auto simp: list_all_iff)

lemma for_each_run_cmd_tree:
  assumes no: "never_overruns e"
  shows "tree d S (fs w) \<Longrightarrow> all_apart (S @ map key_of hs) \<Longrightarrow>
    (\<And>h. h \<in> set hs \<Longrightarrow>
       output_key e (cmd_of h) sub dir = key_of h \<and>
       fs_key (cwd e) (parent (output_path (cmd_of h) sub dir)) = butlast (key_of h) \<and>
       strict_prefix d (key_of h)) \<Longrightarrow>
    fst (for_each hs (\<lambda>h. run_cmd e (cmd_of h) sub dir) w) = Inr () \<and>
    tree d (S @ map key_of hs) (fs (snd (for_each hs (\<lambda>h. run_cmd e (cmd_of h) sub dir) w))) \<and>
    archives (snd (for_each hs (\<lambda>h. run_cmd e (cmd_of h) sub dir) w)) = archives w \<and>
    executing (console (snd (for_each hs (\<lambda>h. run_cmd e (cmd_of h) sub dir) w))) =
      executing (console w) @ map cmd_of hs"
proof (induction hs arbitrary: S w)
  case Nil
  then show ?case by simp
next
  case (Cons h hs)
  have k: "output_key e (cmd_of h) sub dir = key_of h"
    "fs_key (cwd e) (parent (output_path (cmd_of h) sub dir)) = butlast (key_of h)"
    "strict_prefix d (key_of h)"
    using Cons.prems(3) [of h] by simp_all
  have ap: "\<forall>s\<in>set S. apart (key_of h) s"
    using Cons.prems(2) by (auto simp: all_apart_append list_all_iff apart_sym)
  obtain r w1 where b: "run_cmd e (cmd_of h) sub dir w = (r, w1)"
    by (cases "run_cmd e (cmd_of h) sub dir w")
  have s: "r = Inr ()" "tree d (S @ [key_of h]) (fs w1)" "archives w1 = archives w"
    "executing (console w1) = executing (console w) @ [cmd_of h]"
    using run_cmd_tree [OF no Cons.prems(1) k ap] b by simp_all
  have a2: "all_apart ((S @ [key_of h]) @ map key_of hs)" using Cons.prems(2) by simp
  have "fst (for_each hs (\<lambda>h. run_cmd e (cmd_of h) sub dir) w1) = Inr () \<and>
    tree d ((S @ [key_of h]) @ map key_of hs)
      (fs (snd (for_each hs (\<lambda>h. run_cmd e (cmd_of h) sub dir) w1))) \<and>
    archives (snd (for_each hs (\<lambda>h. run_cmd e (cmd_of h) sub dir) w1)) = archives w1 \<and>
    executing (console (snd (for_each hs (\<lambda>h. run_cmd e (cmd_of h) sub dir) w1))) =
      executing (console w1) @ map cmd_of hs"
    using Cons.IH [OF s(2) a2] Cons.prems(3) by simp
  then show ?case using b s by simp
qed

lemma lister_loop_frame:
  "fs (snd (get_kubectl_list_loop e cmd t c w)) = fs w \<and>
   archives (snd (get_kubectl_list_loop e cmd t c w)) = archives w \<and>
   executing (console (snd (get_kubectl_list_loop e cmd t c w))) = executing (console w)"
proof (induction e cmd t c w rule: get_kubectl_list_loop.induct)
  case (1 e cmd t c w)
  show ?case
  proof (cases "c > BACKOFF_LIMIT")
    case True
    then show ?thesis
      by (subst (1 2 3) lister_loop_step) (simp add: executing_append executing_simps)
  next
    case False
    show ?thesis
    proof (cases "proc e cmd (length (launches w))")
      case Never_exits
      then show ?thesis using False by (subst (1 2 3) lister_loop_step) simp
    next
      case (Exits d rc out)
      show ?thesis
      proof (cases "rc = 0")
        case True
        then show ?thesis using False Exits
          by (subst (1 2 3) lister_loop_step) (simp add: executing_append executing_simps)
      next
        case nz: False
        let ?w2 = "w\<lparr>launches := launches w @ [query cmd], console := console w @ [Retry t],
                    slept := slept w @ [t]\<rparr>"
        have w2: "?w2 = sleep t (print (Retry t) (snd (subprocess_run e cmd Capture None w)))"
          using Exits by (simp add: subprocess_run_capture sleep_def print_def)
        have r: "subprocess_run e cmd Capture None w =
            (Inr \<lparr>returncode = rc, stdout = Some out\<rparr>, snd (subprocess_run e cmd Capture None w))"
          using Exits by (simp add: subprocess_run_capture)
        have nz': "returncode \<lparr>returncode = rc, stdout = Some out\<rparr> \<noteq> 0" using nz by simp
        have step: "get_kubectl_list_loop e cmd t c w =
            get_kubectl_list_loop e cmd (t * 2) (c + 1) ?w2"
          using False Exits nz by (subst lister_loop_step) simp
        show ?thesis
          using "1.IH" [OF False r [symmetric] refl nz']
          unfolding w2 [symmetric] step by (simp add: executing_append executing_simps)
      qed
    qed
  qed
qed

lemma steps_lister:
  assumes a: "answers e (list_command ty kc t ns nm jp) xs" and tr: "tree d S (fs w)"
  shows "steps d (get_kubectl_list e ty kc t ns nm jp) w (Some xs) S [list_command ty kc t ns nm jp]"
proof -
  let ?c = "list_command ty kc t ns nm jp"
  let ?w = "print (Executing ?c) w"
  obtain dd out where p: "proc e ?c (length (launches ?w)) = Exits dd 0 out" "valid_utf8 out"
      "parse_list out = xs"
    using a unfolding answers_def by blast
  have "fst (get_kubectl_list_loop e ?c 1 0 ?w) = Inr (Some xs)"
    using p by (subst lister_loop_step) (simp add: BACKOFF_LIMIT_def)
  then show ?thesis
    unfolding steps_def get_kubectl_list_eq
    using lister_loop_frame [of e ?c 1 0 ?w] tr
    by (simp add: print_def executing_append executing_simps)
qed

lemma steps_bind:
  assumes "steps d m w x S1 c1"
    and "tree d S1 (fs (snd (m w))) \<Longrightarrow> steps d (f x) (snd (m w)) y S2 c2"
  shows "steps d (bind m f) w y S2 (c1 @ c2)"
proof -
  obtain r w1 where mw: "m w = (r, w1)" by (cases "m w")
  have r: "r = Inr x" and t: "tree d S1 (fs w1)" using assms(1) mw by (simp_all add: steps_def)
  have "steps d (f x) w1 y S2 c2" using assms(2) t mw by simp
  then show ?thesis using assms(1) mw r by (simp add: steps_def bind_def)
qed

lemma steps_iter: "tree d S (fs w) \<Longrightarrow> steps d (iter (Some xs)) w xs S []"
  by (simp add: steps_def iter_def)

lemma steps_for_each_Nil: "tree d S (fs w) \<Longrightarrow> steps d (for_each [] body) w () S []"
  by (simp add: steps_def)

lemma steps_for_each_one: "steps d (body x) w () S c \<Longrightarrow> steps d (for_each [x] body) w () S c"
  by (cases "body x w") (auto simp: steps_def split: sum.splits)

lemma steps_for_each_run_cmd:
  assumes no: "never_overruns e" and tr: "tree d S (fs w)"
    and ap: "all_apart (S @ map key_of hs)"
    and k: "\<And>h. h \<in> set hs \<Longrightarrow>
       output_key e (cmd_of h) sub dir = key_of h \<and>
       fs_key (cwd e) (parent (output_path (cmd_of h) sub dir)) = butlast (key_of h) \<and>
       strict_prefix d (key_of h)"
  shows "steps d (for_each hs (\<lambda>h. run_cmd e (cmd_of h) sub dir)) w ()
           (S @ map key_of hs) (map cmd_of hs)"
  unfolding steps_def using for_each_run_cmd_tree [OF no tr ap k] by simp

lemma apart_diff: "a \<noteq> b \<Longrightarrow> apart (p @ a # r) (p @ b # r')"
  by (simp add: apart_def)

lemma apart_simps:
  "apart (p @ k) (p @ s) = apart k s"
  "apart (a # k) (b # s) = (a \<noteq> b \<or> apart k s)"
  by (auto simp: apart_def)

lemma all_files_apart:
  "all_apart (global_files e kc t @ default_files e kc t @ [log_file e kc t])"
  by (simp add: global_files_def default_files_def log_file_def file_key_def global_heads_def
        namespace_heads_def replace_def apart_simps)

lemma subfolder_names:
  "names (parse_part ''global'') = [''global'']"
  "names (parse_part ''namespaces/default'') = [''namespaces'', ''default'']"
  "names (parse_part ''namespaces/default/web-0'') = [''namespaces'', ''default'', ''web-0'']"
  by code_simp+

lemma strict_prefix_file_key: "strict_prefix (tmp_key e) (file_key e sub h rest)"
  by (simp add: file_key_def strict_prefix_def)

lemma global_steps:
  assumes no: "never_overruns e" and tr: "tree (tmp_key e) S (fs w)"
    and ap: "all_apart (S @ global_files e kc t)"
  shows "steps (tmp_key e)
           (for_each global_heads
              (\<lambda>h. run_cmd e (global_command kc t h) ''global'' (parse_part (tmp_dir e))))
           w () (S @ global_files e kc t) (map (global_command kc t) global_heads)"
  unfolding global_files_def
proof (rule steps_for_each_run_cmd [OF no tr ap [unfolded global_files_def]])
  fix h assume h: "h \<in> set global_heads"
  have c: "CHR ''/'' \<notin> set h" "2 \<le> length h" using h by (auto simp: global_heads_def)
  have r: "\<not> prefix ''/'' ''global''" by simp
  show "output_key e (global_command kc t h) ''global'' (parse_part (tmp_dir e)) =
          file_key e [''global''] h (global_rest kc t) \<and>
        fs_key (cwd e) (parent (output_path (global_command kc t h) ''global'' (parse_part (tmp_dir e)))) =
          butlast (file_key e [''global''] h (global_rest kc t)) \<and>
        strict_prefix (tmp_key e) (file_key e [''global''] h (global_rest kc t))"
    using output_key_shape [OF c r, of e "global_rest kc t"]
    by (simp add: global_command_def global_rest_def subfolder_names strict_prefix_file_key)
qed

lemma default_steps:
  assumes no: "never_overruns e" and tr: "tree (tmp_key e) S (fs w)"
    and ap: "all_apart (S @ default_files e kc t)"
  shows "steps (tmp_key e)
           (for_each namespace_heads
              (\<lambda>h. run_cmd e (namespace_command kc t ''default'' h) ''namespaces/default''
                     (parse_part (tmp_dir e))))
           w () (S @ default_files e kc t) (map (namespace_command kc t ''default'') namespace_heads)"
  unfolding default_files_def
proof (rule steps_for_each_run_cmd [OF no tr ap [unfolded default_files_def]])
  fix h assume h: "h \<in> set namespace_heads"
  have c: "CHR ''/'' \<notin> set h" "2 \<le> length h" using h by (auto simp: namespace_heads_def)
  have r: "\<not> prefix ''/'' ''namespaces/default''" by simp
  show "output_key e (namespace_command kc t ''default'' h) ''namespaces/default'' (parse_part (tmp_dir e)) =
          file_key e [''namespaces'', ''default''] h (namespace_rest kc t ''default'') \<and>
        fs_key (cwd e) (parent (output_path (namespace_command kc t ''default'' h) ''namespaces/default''
            (parse_part (tmp_dir e)))) =
          butlast (file_key e [''namespaces'', ''default''] h (namespace_rest kc t ''default'')) \<and>
        strict_prefix (tmp_key e) (file_key e [''namespaces'', ''default''] h (namespace_rest kc t ''default''))"
    using output_key_shape [OF c r, of e "namespace_rest kc t ''default''"]
    by (simp add: namespace_command_def namespace_rest_def subfolder_names strict_prefix_file_key)
qed

lemma log_steps:
  assumes no: "never_overruns e" and tr: "tree (tmp_key e) S (fs w)"
    and ap: "all_apart (S @ [log_file e kc t])"
  shows "steps (tmp_key e)
           (for_each [log_command kc t ''default'' ''web-0'' ''app'']
              (\<lambda>c. run_cmd e c ''namespaces/default/web-0'' (parse_part (tmp_dir e))))
           w () (S @ [log_file e kc t]) [log_command kc t ''default'' ''web-0'' ''app'']"
proof -
  have c: "CHR ''/'' \<notin> set ''kubectl logs ''" "2 \<le> length ''kubectl logs ''" by simp_all
  have r: "\<not> prefix ''/'' ''namespaces/default/web-0''" by simp
  have k: "\<And>h. h \<in> set [log_command kc t ''default'' ''web-0'' ''app''] \<Longrightarrow>
       output_key e h ''namespaces/default/web-0'' (parse_part (tmp_dir e)) = log_file e kc t \<and>
       fs_key (cwd e) (parent (output_path h ''namespaces/default/web-0'' (parse_part (tmp_dir e)))) =
         butlast (log_file e kc t) \<and>
       strict_prefix (tmp_key e) (log_file e kc t)"
    using output_key_shape [OF c r, of e "log_rest kc t ''default'' ''web-0'' ''app''"]
    by (simp add: log_command_def log_rest_def log_file_def subfolder_names strict_prefix_file_key)
  have a: "all_apart (S @ map (\<lambda>h. log_file e kc t) [log_command kc t ''default'' ''web-0'' ''app''])"
    using ap by simp
  show ?thesis
    using steps_for_each_run_cmd [OF no tr a k, of "\<lambda>h. h"] by simp
qed

lemma pod_steps:
  assumes no: "never_overruns e" and tr: "tree (tmp_key e) S (fs w)"
    and ap: "all_apart (S @ [log_file e kc t])"
    and a: "answers e (list_command ''pod'' kc t (Some ''default'') ''web-0''
                         ''{.spec.containers[*].name}'') [''app'']"
  shows "steps (tmp_key e) (pod_step e kc t (parse_part (tmp_dir e)) ''default'' ''web-0'') w ()
           (S @ [log_file e kc t])
           [list_command ''pod'' kc t (Some ''default'') ''web-0'' ''{.spec.containers[*].name}'',
            log_command kc t ''default'' ''web-0'' ''app'']"
proof -
  let ?d = "tmp_key e"
  let ?dir = "parse_part (tmp_dir e)"
  let ?l = "list_command ''pod'' kc t (Some ''default'') ''web-0'' ''{.spec.containers[*].name}''"
  let ?m = "get_kubectl_list e ''pod'' kc t (Some ''default'') ''web-0'' ''{.spec.containers[*].name}''"
  let ?f = "\<lambda>containers. bind (iter containers)
            (\<lambda>cs. for_each cs
                     (\<lambda>container.
                        for_each KUBECTL_PER_POD_CMDS
                          (container_cmd_step e kc t ?dir ''default'' ''web-0'' container)))"
  have 1: "steps ?d ?m w (Some [''app'']) S [?l]" using a tr by (rule steps_lister)
  have 2: "steps ?d (?f (Some [''app''])) (snd (?m w)) () (S @ [log_file e kc t])
             ([] @ [log_command kc t ''default'' ''web-0'' ''app''])"
    if t1: "tree ?d S (fs (snd (?m w)))"
  proof (rule steps_bind)
    show "steps ?d (iter (Some [''app''])) (snd (?m w)) [''app''] S []"
      using t1 by (rule steps_iter)
  next
    assume t2: "tree ?d S (fs (snd (iter (Some [''app'']) (snd (?m w)))))"
    have "steps ?d (for_each KUBECTL_PER_POD_CMDS
              (container_cmd_step e kc t ?dir ''default'' ''web-0'' ''app''))
            (snd (iter (Some [''app'']) (snd (?m w)))) ()
            (S @ [log_file e kc t]) [log_command kc t ''default'' ''web-0'' ''app'']"
      unfolding pod_loop_eq using log_steps [OF no t2 ap] by simp
    then show "steps ?d (for_each [''app'']
              (\<lambda>container. for_each KUBECTL_PER_POD_CMDS
                  (container_cmd_step e kc t ?dir ''default'' ''web-0'' container)))
            (snd (iter (Some [''app'']) (snd (?m w)))) ()
            (S @ [log_file e kc t]) [log_command kc t ''default'' ''web-0'' ''app'']"
      by (rule steps_for_each_one)
  qed
  have "steps ?d (bind ?m ?f) w () (S @ [log_file e kc t])
          ([?l] @ ([] @ [log_command kc t ''default'' ''web-0'' ''app'']))"
    using 1 2 by (rule steps_bind)
  then show ?thesis by (simp add: pod_step_def)
qed

lemma namespace_steps:
  assumes no: "never_overruns e" and tr: "tree (tmp_key e) S (fs w)"
    and ap: "all_apart (S @ default_files e kc t @ [log_file e kc t])"
    and a1: "answers e (list_command ''pods'' kc t (Some ''default'') [] default_jsonpath) [''web-0'']"
    and a2: "answers e (list_command ''pod'' kc t (Some ''default'') ''web-0''
                         ''{.spec.containers[*].name}'') [''app'']"
  shows "steps (tmp_key e) (namespace_step e kc t (parse_part (tmp_dir e)) ''default'') w ()
           (S @ default_files e kc t @ [log_file e kc t])
           (map (namespace_command kc t ''default'') namespace_heads @
            [list_command ''pods'' kc t (Some ''default'') [] default_jsonpath,
             list_command ''pod'' kc t (Some ''default'') ''web-0'' ''{.spec.containers[*].name}'',
             log_command kc t ''default'' ''web-0'' ''app''])"
proof -
  let ?d = "tmp_key e"
  let ?dir = "parse_part (tmp_dir e)"
  let ?S1 = "S @ default_files e kc t"
  let ?g = "for_each namespace_heads
              (\<lambda>h. run_cmd e (namespace_command kc t ''default'' h) ''namespaces/default'' ?dir)"
  let ?m = "get_kubectl_list e ''pods'' kc t (Some ''default'') [] default_jsonpath"
  let ?l = "list_command ''pods'' kc t (Some ''default'') [] default_jsonpath"
  let ?f = "\<lambda>pods. bind (iter pods) (\<lambda>ps. for_each ps (pod_step e kc t ?dir ''default''))"
  let ?pc = "[list_command ''pod'' kc t (Some ''default'') ''web-0'' ''{.spec.containers[*].name}'',
            log_command kc t ''default'' ''web-0'' ''app'']"
  have ap1: "all_apart ?S1" and ap2: "all_apart (?S1 @ [log_file e kc t])"
    using ap by (simp_all add: all_apart_append)
  have 1: "steps ?d ?g w () ?S1 (map (namespace_command kc t ''default'') namespace_heads)"
    using no tr ap1 by (rule default_steps)
  have 2: "steps ?d (bind ?m ?f) (snd (?g w)) () (?S1 @ [log_file e kc t]) ([?l] @ ([] @ ?pc))"
    if t1: "tree ?d ?S1 (fs (snd (?g w)))"
  proof (rule steps_bind [where x = "Some [''web-0'']" and ?S1.0 = ?S1])
    show "steps ?d ?m (snd (?g w)) (Some [''web-0'']) ?S1 [?l]" using a1 t1 by (rule steps_lister)
  next
    assume t2: "tree ?d ?S1 (fs (snd (?m (snd (?g w)))))"
    show "steps ?d (?f (Some [''web-0''])) (snd (?m (snd (?g w)))) () (?S1 @ [log_file e kc t]) ([] @ ?pc)"
    proof (rule steps_bind [where x = "[''web-0'']" and ?S1.0 = ?S1])
      show "steps ?d (iter (Some [''web-0''])) (snd (?m (snd (?g w)))) [''web-0''] ?S1 []"
        using t2 by (rule steps_iter)
    next
      assume t3: "tree ?d ?S1 (fs (snd (iter (Some [''web-0'']) (snd (?m (snd (?g w)))))))"
      show "steps ?d (for_each [''web-0''] (pod_step e kc t ?dir ''default''))
              (snd (iter (Some [''web-0'']) (snd (?m (snd (?g w)))))) () (?S1 @ [log_file e kc t]) ?pc"
        using pod_steps [OF no t3 ap2 a2] by (rule steps_for_each_one)
    qed
  qed
  have 3: "steps ?d (bind ?g (\<lambda>u. bind ?m ?f)) w () (?S1 @ [log_file e kc t])
          (map (namespace_command kc t ''default'') namespace_heads @ ([?l] @ ([] @ ?pc)))"
    using 1 2 by (rule steps_bind [where x = "()" and ?S1.0 = ?S1])
  have n: "namespace_step e kc t ?dir ''default'' = bind ?g (\<lambda>u. bind ?m ?f)"
    unfolding namespace_step_def namespace_loop_eq by simp
  show ?thesis unfolding n using 3 by simp
qed

lemma mkdir_parents_Inr:
  "mkdir_parents pre ks t = Inr t' \<Longrightarrow>
   \<forall>q. q \<noteq> [] \<and> prefix q ks \<longrightarrow> \<not> is_file (map_of t (pre @ q))"
proof (induction ks arbitrary: pre t)
  case Nil
  then show ?case by simp
next
  case (Cons x xs)
  let ?p = "pre @ [x]"
  show ?case
  proof (intro allI impI)
    fix q assume q: "q \<noteq> [] \<and> prefix q (x # xs)"
    then obtain q' where q': "q = x # q'" "prefix q' xs" by (cases q) auto
    show "\<not> is_file (map_of t (pre @ q))"
    proof (cases "map_of t ?p")
      case None
      then have r: "mkdir_parents ?p xs (AList.update ?p Dir t) = Inr t'"
        using Cons.prems by (simp add: lookup_nonempty)
      show ?thesis
      proof (cases "q' = []")
        case True
        then show ?thesis using None q' by (simp add: is_file_def)
      next
        case False
        then have "\<not> is_file (map_of (AList.update ?p Dir t) (?p @ q'))"
          using Cons.IH [OF r] q' by blast
        then show ?thesis using False q' by (simp add: update_conv')
      qed
    next
      case (Some v)
      show ?thesis
      proof (cases v)
        case Dir
        then have r: "mkdir_parents ?p xs t = Inr t'"
          using Cons.prems Some by (simp add: lookup_nonempty)
        show ?thesis
        proof (cases "q' = []")
          case True
          then show ?thesis using Some Dir q' by (simp add: is_file_def)
        next
          case False
          then have "\<not> is_file (map_of t (?p @ q'))" using Cons.IH [OF r] q' by blast
          then show ?thesis using q' by simp
        qed
      next
        case (File c)
        then show ?thesis using Cons.prems Some by (simp add: lookup_nonempty)
      qed
    qed
  qed
qed

lemma fresh_tree:
  assumes "fresh_tmp e w"
  shows "\<exists>t0. mkdir_parents [] (tmp_key e) (fs w) = Inr t0 \<and> tree (tmp_key e) [] t0 \<and>
           lookup (fs w) (tmp_key e) = None"
proof -
  let ?d = "tmp_key e"
  have l: "lookup (fs w) ?d = None" and dist: "distinct (map fst (fs w))"
    and nb: "list_all (\<lambda>kn. \<not> prefix ?d (fst kn)) (fs w)"
    using assms by (simp_all add: fresh_tmp_def)
  obtain t0 where t0: "mkdir_parents [] ?d (fs w) = Inr t0"
    using assms by (auto simp: fresh_tmp_def split: sum.splits)
  have d: "?d \<noteq> []" using l by (auto simp: lookup_def split: if_splits)
  have way: "\<forall>q. q \<noteq> [] \<and> prefix q ?d \<longrightarrow> \<not> is_file (map_of (fs w) ([] @ q))"
    using mkdir_parents_Inr [OF t0] .
  obtain t' where t': "mkdir_parents [] ?d (fs w) = Inr t'"
    "distinct (map fst (fs w)) \<longrightarrow> distinct (map fst t')"
    "\<forall>k. map_of t' k =
        (if (\<exists>q. q \<noteq> [] \<and> prefix q ?d \<and> k = [] @ q) \<and> map_of (fs w) k = None
         then Some Dir else map_of (fs w) k)"
    using mkdir_parents_ok [OF way] by blast
  have e: "t' = t0" using t0 t'(1) by simp
  have m: "\<And>k. map_of t0 k =
      (if k \<noteq> [] \<and> prefix k ?d \<and> map_of (fs w) k = None then Some Dir else map_of (fs w) k)"
    using t'(3) unfolding e by auto
  have none: "\<And>k. prefix ?d k \<Longrightarrow> map_of (fs w) k = None"
  proof -
    fix k assume "prefix ?d k"
    then have "k \<notin> fst ` set (fs w)" using nb by (auto simp: list_all_iff)
    then show "map_of (fs w) k = None" by (simp add: map_of_eq_None_iff)
  qed
  have 1: "distinct (map fst t0)" using t'(2) dist e by simp
  have 2: "\<forall>p. p \<noteq> [] \<and> prefix p ?d \<longrightarrow> map_of t0 p = Some Dir"
  proof (intro allI impI)
    fix p assume p: "p \<noteq> [] \<and> prefix p ?d"
    then have "\<not> is_file (map_of (fs w) p)" using way by simp
    then show "map_of t0 p = Some Dir"
      using m [of p] p by (cases "map_of (fs w) p") (auto simp: is_file_def split: node.splits)
  qed
  have 3: "\<forall>k. strict_prefix ?d k \<longrightarrow>
         (is_file (map_of t0 k) = (k \<in> set [])) \<and>
         ((map_of t0 k = Some Dir) = (\<exists>s\<in>set []. strict_prefix k s))"
  proof (intro allI impI)
    fix k assume k: "strict_prefix ?d k"
    then have "\<not> prefix k ?d" by (auto simp: strict_prefix_def)
    moreover have "map_of (fs w) k = None" using k none by auto
    ultimately have "map_of t0 k = None" using m [of k] by simp
    then show "(is_file (map_of t0 k) = (k \<in> set [])) \<and>
         ((map_of t0 k = Some Dir) = (\<exists>s\<in>set []. strict_prefix k s))"
      by (simp add: is_file_def)
  qed
  have "tree ?d [] t0" unfolding tree_def using 1 d 2 3 by blast
  then show ?thesis using t0 l by blast
qed

lemma bind_assoc: "bind (bind m f) g = bind m (\<lambda>x. bind (f x) g)"
  by (rule ext) (simp add: bind_def split: prod.splits sum.splits)

lemma all_apart_distinct: "all_apart xs \<Longrightarrow> distinct xs"
  by (induction xs) (auto simp: list_all_iff apart_def)

lemma same_count:
  assumes "distinct xs" "distinct ys" "set xs = set ys"
  shows "length (filter P xs) = length (filter P ys)"
  using assms by (simp add: distinct_length_filter)

lemma tree_subtree:
  assumes tr: "tree d S t" and b: "\<forall>s\<in>set S. strict_prefix d s"
  shows "distinct (files (subtree d t))"
    and "set (files (subtree d t)) = drop (length d) ` set S"
    and "\<forall>k\<in>set (map fst (subtree d t)). k = [] \<or> (\<exists>s\<in>set S. prefix (d @ k) s)"
proof -
  have dist: "distinct (map fst t)" and dd: "map_of t d = Some Dir"
    and fl: "\<And>k. strict_prefix d k \<Longrightarrow> is_file (map_of t k) = (k \<in> set S)"
    and dr: "\<And>k. strict_prefix d k \<Longrightarrow> (map_of t k = Some Dir) = (\<exists>s\<in>set S. strict_prefix k s)"
    using tr by (auto simp: tree_def)
  let ?Q = "\<lambda>kn. below d kn \<and> is_file (Some (snd kn))"
  have f: "files (subtree d t) = map (drop (length d)) (map fst (filter ?Q t))"
    by (simp add: files_def subtree_def filter_map comp_def conj_commute)
  have dF: "distinct (map fst (filter ?Q t))" using dist by (rule distinct_map_filter)
  have pre: "\<And>k. k \<in> set (map fst (filter ?Q t)) \<Longrightarrow> prefix d k"
    by (auto simp: below_def)
  have inj: "inj_on (drop (length d)) (set (map fst (filter ?Q t)))"
  proof (rule inj_onI)
    fix x y
    assume "x \<in> set (map fst (filter ?Q t))" "y \<in> set (map fst (filter ?Q t))"
      and e: "drop (length d) x = drop (length d) y"
    then obtain x' y' where "x = d @ x'" "y = d @ y'" using pre by (metis prefixE)
    then show "x = y" using e by simp
  qed
  have "distinct (map (drop (length d)) (map fst (filter ?Q t)))"
    using dF inj by (subst distinct_map) blast
  then show "distinct (files (subtree d t))"
    unfolding f .
  have mem: "\<And>k v. ((k, v) \<in> set t) = (map_of t k = Some v)" using dist by simp
  have "set (map fst (filter ?Q t)) = set S"
  proof (intro set_eqI iffI)
    fix k assume "k \<in> set (map fst (filter ?Q t))"
    then obtain v where v: "(k, v) \<in> set t" "prefix d k" "is_file (Some v)"
      by (auto simp: below_def)
    then have m: "map_of t k = Some v" using mem by simp
    then have "k \<noteq> d" using dd v(3) by (auto simp: is_file_def)
    then have sp: "strict_prefix d k" using v(2) by (simp add: strict_prefix_def)
    have "is_file (map_of t k)" using m v(3) by simp
    then show "k \<in> set S" using fl [OF sp] by simp
  next
    fix k assume k: "k \<in> set S"
    then have sp: "strict_prefix d k" using b by simp
    then have "is_file (map_of t k)" using fl k by simp
    then obtain c where "map_of t k = Some (File c)"
      by (auto simp: is_file_def split: option.splits node.splits)
    then have "(k, File c) \<in> set t" using mem by simp
    then have "(k, File c) \<in> set (filter ?Q t)" using sp by (simp add: below_def is_file_def)
    then show "k \<in> set (map fst (filter ?Q t))" by force
  qed
  then have "set (map (drop (length d)) (map fst (filter ?Q t))) = drop (length d) ` set S"
    by (simp only: set_map)
  then show "set (files (subtree d t)) = drop (length d) ` set S"
    unfolding f .
  show "\<forall>k\<in>set (map fst (subtree d t)). k = [] \<or> (\<exists>s\<in>set S. prefix (d @ k) s)"
  proof
    fix k assume "k \<in> set (map fst (subtree d t))"
    then obtain ka v where kv: "(ka, v) \<in> set t" "prefix d ka" "k = drop (length d) ka"
      by (auto simp: subtree_def below_def)
    then have ka: "ka = d @ k" by (auto elim: prefixE)
    have m: "map_of t ka = Some v" using kv(1) mem by simp
    show "k = [] \<or> (\<exists>s\<in>set S. prefix (d @ k) s)"
    proof (cases "k = []")
      case True
      then show ?thesis by simp
    next
      case False
      then have sp: "strict_prefix d ka" using ka by (simp add: strict_prefix_def)
      show ?thesis
      proof (cases v)
        case Dir
        then have "\<exists>s\<in>set S. strict_prefix ka s" using dr [OF sp] m by simp
        then show ?thesis using ka by (auto simp: strict_prefix_def)
      next
        case (File c)
        then have "ka \<in> set S" using fl [OF sp] m by (simp add: is_file_def)
        then show ?thesis using ka by auto
      qed
    qed
  qed
qed

lemma drop_file_key:
  "drop (length (tmp_key e)) (file_key e sub h rest) =
     sub @ (replace CHR '' '' CHR ''_'' h @ stem rest) # twigs rest"
  by (simp add: file_key_def)

lemma lister_answers:
  assumes "answers e (list_command ty kc t ns nm jp) xs"
  shows "fst (get_kubectl_list e ty kc t ns nm jp w) = Inr (Some xs)"
proof -
  let ?c = "list_command ty kc t ns nm jp"
  let ?w = "print (Executing ?c) w"
  obtain dd out where p: "proc e ?c (length (launches ?w)) = Exits dd 0 out" "valid_utf8 out"
      "parse_list out = xs"
    using assms unfolding answers_def by blast
  have "fst (get_kubectl_list_loop e ?c 1 0 ?w) = Inr (Some xs)"
    using p by (subst lister_loop_step) (simp add: BACKOFF_LIMIT_def)
  then show ?thesis by (simp add: get_kubectl_list_eq)
qed

lemma lister_frame:
  "fs (snd (get_kubectl_list e ty kc t ns nm jp w)) = fs w \<and>
   archives (snd (get_kubectl_list e ty kc t ns nm jp w)) = archives w \<and>
   executing (console (snd (get_kubectl_list e ty kc t ns nm jp w))) =
     executing (console w) @ [list_command ty kc t ns nm jp]"
  unfolding get_kubectl_list_eq
  using lister_loop_frame [of e "list_command ty kc t ns nm jp" 1 0
          "print (Executing (list_command ty kc t ns nm jp)) w"]
  by (simp add: print_def executing_append executing_simps)

lemma main_run:
  assumes kc: "kc = kubeconfig_arg e (fst (parse_args a))"
    and t: "t = timeout_arg (snd (parse_args a))"
    and fr: "fresh_tmp e w"
    and an: "answers e (list_command ''namespaces'' kc t None [] default_jsonpath) nss"
    and st: "\<And>w1. tree (tmp_key e) [] (fs w1) \<Longrightarrow>
       steps (tmp_key e)
         (bind (for_each global_heads
                  (\<lambda>h. run_cmd e (global_command kc t h) ''global'' (parse_part (tmp_dir e))))
            (\<lambda>u. bind (iter (Some nss))
                   (\<lambda>namespaces. for_each namespaces
                       (namespace_step e kc t (parse_part (tmp_dir e))))))
         w1 () S cmds"
  shows "\<exists>tf. fst (main e a w) = Inr () \<and> tree (tmp_key e) S tf \<and>
           archives (snd (main e a w)) =
             archives w @ [(''snapshot-'' @ str_int (now e) @ ''.tar.gz'',
                            ''snapshot-'' @ str_int (now e), subtree (tmp_key e) tf)] \<and>
           executing (console (snd (main e a w))) =
             executing (console w) @ list_command ''namespaces'' kc t None [] default_jsonpath # cmds"
proof -
  let ?d = "tmp_key e"
  let ?dir = "parse_part (tmp_dir e)"
  let ?l = "list_command ''namespaces'' kc t None [] default_jsonpath"
  let ?L = "get_kubectl_list e ''namespaces'' kc t None [] default_jsonpath"
  let ?G = "for_each global_heads (\<lambda>h. run_cmd e (global_command kc t h) ''global'' ?dir)"
  let ?N = "\<lambda>nl. bind (iter nl) (\<lambda>namespaces. for_each namespaces (namespace_step e kc t ?dir))"
  let ?M = "bind ?G (\<lambda>u. ?N (Some nss))"
  let ?B = "\<lambda>nl tmp_dir.
     bind (for_each global_heads
             (\<lambda>h. run_cmd e (global_command kc t h) ''global'' (parse_part tmp_dir)))
       (\<lambda>u. bind (iter nl)
              (\<lambda>namespaces.
                 bind (for_each namespaces (namespace_step e kc t (parse_part tmp_dir)))
                   (\<lambda>u. package e (parse_part tmp_dir))))"
  have m: "main e a = bind ?L (\<lambda>nl. TemporaryDirectory e (?B nl))"
    unfolding main_def kc t by (simp add: case_prod_beta Let_def global_loop_eq)
  obtain w1 where L: "?L w = (Inr (Some nss), w1)"
    using lister_answers [OF an, of w] by (cases "?L w") auto
  have f1: "fs w1 = fs w" "archives w1 = archives w"
    "executing (console w1) = executing (console w) @ [?l]"
    using lister_frame [of e "''namespaces''" kc t None "[]" default_jsonpath w] L by simp_all
  obtain t0 where t0: "mkdir_parents [] ?d (fs w) = Inr t0" "tree ?d [] t0"
      "lookup (fs w) ?d = None"
    using fresh_tree [OF fr] by blast
  let ?w2 = "w1\<lparr>fs := t0\<rparr>"
  have "steps ?d ?M ?w2 () S cmds" using st [of ?w2] t0(2) by simp
  then obtain w3 where M: "?M ?w2 = (Inr (), w3)" and w3: "tree ?d S (fs w3)"
      "archives w3 = archives w" "executing (console w3) = executing (console w) @ ?l # cmds"
    using f1 by (cases "?M ?w2") (auto simp: steps_def)
  have b: "?B (Some nss) (tmp_dir e) = bind ?M (\<lambda>u. package e ?dir)"
    by (simp add: bind_assoc)
  let ?w4 = "snd (package e ?dir w3)"
  have p: "package e ?dir w3 = (Inr (), ?w4)" by (simp add: package_def Let_def)
  have w4: "archives ?w4 = archives w @ [(''snapshot-'' @ str_int (now e) @ ''.tar.gz'',
                            ''snapshot-'' @ str_int (now e), subtree ?d (fs w3))]"
    "executing (console ?w4) = executing (console w) @ ?l # cmds"
    using w3
    by (simp_all add: package_def Let_def print_def tmp_key_def executing_append executing_simps)
  have body: "?B (Some nss) (tmp_dir e) ?w2 = (Inr (), ?w4)"
    unfolding b using M p by (simp add: bind_def)
  have td: "TemporaryDirectory e (?B (Some nss)) w1 =
      (Inr (), ?w4\<lparr>fs := filter (\<lambda>kn. \<not> below ?d kn) (fs ?w4)\<rparr>)"
    using t0(1,3) f1(1) body
    by (simp add: TemporaryDirectory_def tmp_key_def Let_def)
  have r: "main e a w = (Inr (), ?w4\<lparr>fs := filter (\<lambda>kn. \<not> below ?d kn) (fs ?w4)\<rparr>)"
    unfolding m using L td by (simp add: bind_def)
  show ?thesis
    unfolding r using w3(1) w4 by (intro exI [of _ "fs w3"]) simp
qed

end
